theory Spec2Isabelle
  imports
    Main
    "HOL-Library.Word"
    "HOL-Library.Char_ord"
    "HOL-Library.List_Lexorder"
    "HOL-Library.AList"
    "HOL-Library.Multiset"
begin

section \<open>Data model\<close>

text \<open>
  Byte arrays (\<open>Uint8Array\<close>, \<open>Buffer\<close>) are lists of 8-bit words. Identifiers,
  timestamps, tags and messages are \<open>string\<close>s; a JavaScript \<open>Error\<close> is its message.
  The plaintext handed to the cipher is a JavaScript string proper, a list of UTF-16 code
  units, because what \<open>TextEncoder\<close> and \<open>TextDecoder\<close> do depends on them.
\<close>

type_synonym byte = "8 word"
type_synonym bytes = "byte list"
type_synonym js_string = "16 word list"

datatype error = Error string

text \<open>\<open>Evidence\<close> of \<open>lib/storage/types.ts\<close>, one row of table \<open>evidences\<close>.\<close>

record evidence =
  id_ev :: string
  timestamp :: string
  conversationId :: string
  llmProvider :: string
  encryptedContent :: bytes
  nonce :: bytes
  contentHash :: string
  messageCount :: int
  gitCommitHash :: "string option"
  gitTimestamp :: "string option"
  tags :: "string option"
  createdAt :: string
  updatedAt :: string

text \<open>
  The table is the list of its rows in insertion order. Column \<open>id\<close> is the primary key,
  so the rows of a table carry pairwise different ids.
\<close>

type_synonym store = "evidence list"

definition primary_key :: "store \<Rightarrow> bool" where
  "primary_key db = distinct (map id_ev db)"

section \<open>Record store: lookup and listing\<close>

text \<open>\<open>findById\<close>: \<open>SELECT * FROM evidences WHERE id = ?\<close>, \<open>null\<close> when no row matches.\<close>

definition findById :: "store \<Rightarrow> string \<Rightarrow> evidence option" where
  "findById db i = find (\<lambda>r. id_ev r = i) db"

text \<open>
  \<open>ORDER BY timestamp DESC\<close>. Timestamps are compared as text, bytewise; SQL leaves
  the order of rows with equal timestamps open, and the model fixes one.
\<close>

definition order_by_timestamp_desc :: "evidence list \<Rightarrow> evidence list" where
  "order_by_timestamp_desc rows = rev (sort_key timestamp rows)"

text \<open>
  \<open>LIMIT l OFFSET off\<close> of SQLite: a negative limit means no limit, a negative offset
  counts as zero.
\<close>

definition sql_limit_offset :: "int \<Rightarrow> int \<Rightarrow> 'a list \<Rightarrow> 'a list" where
  "sql_limit_offset l off rows =
     (let rest = drop (nat off) rows in if l < 0 then rest else take (nat l) rest)"

text \<open>
  The pagination clause that \<open>list\<close> and \<open>search\<close> append to their query: \<open>LIMIT ?\<close>
  when a limit is given, with \<open>OFFSET ?\<close> only for a positive offset, and
  \<open>LIMIT -1 OFFSET ?\<close> for an offset without a limit.
\<close>

definition paginate :: "int option \<Rightarrow> int \<Rightarrow> 'a list \<Rightarrow> 'a list" where
  "paginate limit offset rows =
     (case limit of
        Some l \<Rightarrow> if offset > 0 then sql_limit_offset l offset rows
                  else sql_limit_offset l 0 rows
      | None \<Rightarrow> if offset > 0 then sql_limit_offset (- 1) offset rows else rows)"

text \<open>\<open>list(options)\<close>: \<open>offset\<close> defaults to 0.\<close>

definition list_ev :: "store \<Rightarrow> int option \<Rightarrow> int option \<Rightarrow> evidence list" where
  "list_ev db limit offset =
     paginate limit (case offset of None \<Rightarrow> 0 | Some off \<Rightarrow> off) (order_by_timestamp_desc db)"

section \<open>Tool handlers: error wrapper and list-footprints\<close>

text \<open>
  \<open>wrapToolHandler\<close>: a handler's exception is rethrown with the tool name in front
  and the suggested action behind; a result passes through.
\<close>

definition wrapToolHandler :: "string \<Rightarrow> string \<Rightarrow> error + 'a \<Rightarrow> error + 'a" where
  "wrapToolHandler toolName suggestedAction r =
     (case r of
        Inl (Error m) \<Rightarrow>
          Inl (Error (''[Tool: '' @ toolName @ ''] '' @ m @ ''. Suggested action: '' @ suggestedAction))
      | Inr v \<Rightarrow> Inr v)"

text \<open>The entries of \<open>footprints\<close> in the structured content of list-footprints.\<close>

record footprint_entry =
  entry_id :: string
  entry_timestamp :: string
  entry_conversationId :: string
  entry_llmProvider :: string
  entry_messageCount :: int
  entry_tags :: "string option"

definition to_entry :: "evidence \<Rightarrow> footprint_entry" where
  "to_entry fp =
     \<lparr>entry_id = id_ev fp, entry_timestamp = timestamp fp,
      entry_conversationId = conversationId fp, entry_llmProvider = llmProvider fp,
      entry_messageCount = messageCount fp, entry_tags = tags fp\<rparr>"

record list_result =
  footprints :: "footprint_entry list"
  total_n :: nat

text \<open>
  \<open>createListFootprintsHandler\<close>: both parameters are optional integers; the handler
  rejects a non-positive limit and a negative offset before it reads the store. Of the
  response the model keeps the structured content; the text beside it repeats it.
\<close>

definition list_footprints_body :: "store \<Rightarrow> int option \<Rightarrow> int option \<Rightarrow> error + list_result" where
  "list_footprints_body db limit offset =
     (if limit \<noteq> None \<and> the limit \<le> 0 then Inl (Error ''Limit must be positive'')
      else if offset \<noteq> None \<and> the offset < 0 then Inl (Error ''Offset cannot be negative'')
      else
        let fps = list_ev db limit offset
        in Inr \<lparr>footprints = map to_entry fps, total_n = length fps\<rparr>)"

definition createListFootprintsHandler :: "store \<Rightarrow> int option \<Rightarrow> int option \<Rightarrow> error + list_result" where
  "createListFootprintsHandler db limit offset =
     wrapToolHandler ''list-footprints'' ''Ensure limit is positive and offset is non-negative.''
       (list_footprints_body db limit offset)"

section \<open>Text encoding\<close>

text \<open>
  \<open>new TextEncoder().encode(s)\<close> first converts the string to scalar values, where a
  surrogate code unit without its partner becomes U+FFFD, and then writes each scalar
  value in UTF-8. Code units and bytes are handled as natural numbers in between.
\<close>

definition is_lead :: "nat \<Rightarrow> bool" where
  "is_lead u = (0xD800 \<le> u \<and> u \<le> 0xDBFF)"

definition is_trail :: "nat \<Rightarrow> bool" where
  "is_trail u = (0xDC00 \<le> u \<and> u \<le> 0xDFFF)"

fun to_scalar_values :: "nat list \<Rightarrow> nat list" where
  "to_scalar_values [] = []"
| "to_scalar_values [c] = [if is_lead c \<or> is_trail c then 0xFFFD else c]"
| "to_scalar_values (c # d # ds) =
     (if is_lead c \<and> is_trail d
      then (0x10000 + (c - 0xD800) * 0x400 + (d - 0xDC00)) # to_scalar_values ds
      else (if is_lead c \<or> is_trail c then 0xFFFD else c) # to_scalar_values (d # ds))"

definition utf8_bytes :: "nat \<Rightarrow> nat list" where
  "utf8_bytes cp =
     (if cp < 0x80 then [cp]
      else if cp < 0x800 then [0xC0 + cp div 0x40, 0x80 + cp mod 0x40]
      else if cp < 0x10000 then
        [0xE0 + cp div 0x1000, 0x80 + cp div 0x40 mod 0x40, 0x80 + cp mod 0x40]
      else
        [0xF0 + cp div 0x40000, 0x80 + cp div 0x1000 mod 0x40,
         0x80 + cp div 0x40 mod 0x40, 0x80 + cp mod 0x40])"

definition TextEncoder_encode :: "js_string \<Rightarrow> bytes" where
  "TextEncoder_encode s = map of_nat (concat (map utf8_bytes (to_scalar_values (map unat s))))"

text \<open>
  \<open>new TextDecoder().decode(bytes)\<close>: the UTF-8 decoder of the Encoding Standard with
  its default options. It is not fatal, so a malformed sequence yields U+FFFD, and it
  does not ignore the byte order mark, so a leading \<open>EF BB BF\<close> is dropped. The
  decoder keeps the code point under construction, the number of continuation bytes
  still due and the bounds for the next byte; a byte outside the bounds ends the
  sequence with U+FFFD and is read again from the initial state.
\<close>

function utf8_decoder :: "nat \<Rightarrow> nat \<Rightarrow> nat \<Rightarrow> nat \<Rightarrow> nat list \<Rightarrow> nat list" where
  "utf8_decoder cp due lo hi [] = (if due \<noteq> 0 then [0xFFFD] else [])"
| "utf8_decoder cp due lo hi (b # bs) =
     (if due = 0 then
        if b \<le> 0x7F then b # utf8_decoder 0 0 0x80 0xBF bs
        else if 0xC2 \<le> b \<and> b \<le> 0xDF then utf8_decoder (b mod 0x20) 1 0x80 0xBF bs
        else if 0xE0 \<le> b \<and> b \<le> 0xEF then
          utf8_decoder (b mod 0x10) 2 (if b = 0xE0 then 0xA0 else 0x80)
            (if b = 0xED then 0x9F else 0xBF) bs
        else if 0xF0 \<le> b \<and> b \<le> 0xF4 then
          utf8_decoder (b mod 8) 3 (if b = 0xF0 then 0x90 else 0x80)
            (if b = 0xF4 then 0x8F else 0xBF) bs
        else 0xFFFD # utf8_decoder 0 0 0x80 0xBF bs
      else if b < lo \<or> hi < b then 0xFFFD # utf8_decoder 0 0 0x80 0xBF (b # bs)
      else if due = 1 then (cp * 0x40 + b mod 0x40) # utf8_decoder 0 0 0x80 0xBF bs
      else utf8_decoder (cp * 0x40 + b mod 0x40) (due - 1) 0x80 0xBF bs)"
  by pat_completeness auto
termination
  by (relation "measure (\<lambda>(cp, due, lo, hi, bs). 2 * length bs + (if due = 0 then 0 else 1))") auto

fun strip_bom :: "nat list \<Rightarrow> nat list" where
  "strip_bom (b1 # b2 # b3 # bs) =
     (if b1 = 0xEF \<and> b2 = 0xBB \<and> b3 = 0xBF then bs else b1 # b2 # b3 # bs)"
| "strip_bom bs = bs"

definition code_units :: "nat \<Rightarrow> nat list" where
  "code_units cp =
     (if cp < 0x10000 then [cp]
      else [0xD800 + (cp - 0x10000) div 0x400, 0xDC00 + (cp - 0x10000) mod 0x400])"

definition TextDecoder_decode :: "bytes \<Rightarrow> js_string" where
  "TextDecoder_decode bs =
     map of_nat (concat (map code_units (utf8_decoder 0 0 0x80 0xBF (strip_bom (map unat bs)))))"

text \<open>A string is well formed when every surrogate code unit is part of a pair.\<close>

fun well_formed :: "nat list \<Rightarrow> bool" where
  "well_formed [] = True"
| "well_formed [c] = (\<not> is_lead c \<and> \<not> is_trail c)"
| "well_formed (c # d # ds) =
     (if is_lead c \<and> is_trail d then well_formed ds
      else \<not> is_lead c \<and> \<not> is_trail c \<and> well_formed (d # ds))"

text \<open>A Unicode scalar value: a code point that is not a surrogate.\<close>

definition scalar :: "nat \<Rightarrow> bool" where
  "scalar cp = (cp < 0x110000 \<and> \<not> (0xD800 \<le> cp \<and> cp \<le> 0xDFFF))"

section \<open>AEAD cipher\<close>

text \<open>
  The cipher itself is the library's \<open>xchacha20poly1305(key, nonce)\<close>; the model takes
  it as a parameter: \<open>seal\<close> is its \<open>encrypt\<close>, and \<open>unseal\<close> is its \<open>decrypt\<close>, with
  \<open>None\<close> where the library throws because the authentication tag does not verify.
\<close>

record aead =
  seal :: "bytes \<Rightarrow> bytes \<Rightarrow> bytes \<Rightarrow> bytes"
  unseal :: "bytes \<Rightarrow> bytes \<Rightarrow> bytes \<Rightarrow> bytes option"

text \<open>
  What the library promises: under a 32-byte key and a 24-byte nonce, opening a sealed
  message gives the message back.
\<close>

definition aead_correct :: "aead \<Rightarrow> bool" where
  "aead_correct c =
     (\<forall>k n p. length k = 32 \<longrightarrow> length n = 24 \<longrightarrow> unseal c k n (seal c k n p) = Some p)"

record EncryptedData =
  ciphertext :: bytes
  nonce_e :: bytes

text \<open>
  \<open>encrypt(plaintext, key)\<close>. The argument \<open>rnd\<close> is what \<open>randomBytes(24)\<close> returns
  at this call.
\<close>

definition encrypt :: "aead \<Rightarrow> bytes \<Rightarrow> js_string \<Rightarrow> bytes \<Rightarrow> error + EncryptedData" where
  "encrypt c rnd plaintext key =
     (if length key \<noteq> 32 then Inl (Error ''Key must be 32 bytes'')
      else
        let nonce' = rnd;
            plaintextBytes = TextEncoder_encode plaintext
        in Inr \<lparr>ciphertext = seal c key nonce' plaintextBytes, nonce_e = nonce'\<rparr>)"

text \<open>
  \<open>decrypt(ciphertext, nonce, key)\<close>: whatever the cipher throws is replaced by one
  generic error.
\<close>

definition decrypt :: "aead \<Rightarrow> bytes \<Rightarrow> bytes \<Rightarrow> bytes \<Rightarrow> error + js_string" where
  "decrypt c ciphertext' nonce' key =
     (if length key \<noteq> 32 then Inl (Error ''Key must be 32 bytes'')
      else if length nonce' \<noteq> 24 then Inl (Error ''Nonce must be 24 bytes'')
      else
        case unseal c key nonce' ciphertext' of
          Some plaintextBytes \<Rightarrow> Inr (TextDecoder_decode plaintextBytes)
        | None \<Rightarrow> Inl (Error ''Decryption failed: invalid key or tampered data''))"

section \<open>Integrity verifier\<close>

record verify_result =
  verify_id :: string
  verified :: bool
  contentIntegrity_passed :: bool
  contentIntegrity_hash :: string
  gitTimestamp_passed :: bool
  gitTimestamp_commitHash :: "string option"
  gitTimestamp_timestamp :: "string option"
  encryptionStatus_passed :: bool
  encryptionStatus_algorithm :: string
  legalReadiness :: bool
  verifiedAt :: string

text \<open>JavaScript truthiness of a \<open>string | null\<close>: \<open>null\<close> and the empty string are falsy.\<close>

definition truthy :: "string option \<Rightarrow> bool" where
  "truthy s = (case s of None \<Rightarrow> False | Some x \<Rightarrow> x \<noteq> [])"

text \<open>
  The handler of verify-footprint. \<open>sha256\<close> is the hex digest of a byte string
  (\<open>createHash("sha256").update(s).digest("hex")\<close> hashes the UTF-8 bytes of \<open>s\<close>),
  \<open>getDerivedKey\<close> is the outcome of awaiting the key, \<open>now\<close> the clock reading.
  The checks start out failed; the \<open>try\<close> block decrypts once; its \<open>catch\<close> resets
  the two checks that depend on it. The result is the structured content of the response.
\<close>

definition verify_footprint_body ::
  "aead \<Rightarrow> (bytes \<Rightarrow> string) \<Rightarrow> store \<Rightarrow> error + bytes \<Rightarrow> string \<Rightarrow> string \<Rightarrow> error + verify_result" where
  "verify_footprint_body c sha256 db getDerivedKey now i =
     (case findById db i of
        None \<Rightarrow> Inl (Error (''Footprint with ID '' @ i @ '' not found''))
      | Some fp \<Rightarrow>
          (case getDerivedKey of
             Inl e \<Rightarrow> Inl e
           | Inr key \<Rightarrow>
               let (ci_passed, ci_hash, enc_passed) =
                     (case decrypt c (encryptedContent fp) (nonce fp) key of
                        Inr decryptedContent \<Rightarrow>
                          (let computedHash = sha256 (TextEncoder_encode decryptedContent)
                           in (computedHash = contentHash fp, computedHash, True))
                      | Inl _ \<Rightarrow> (False, [], False));
                   git_passed = (truthy (gitCommitHash fp) \<and> truthy (gitTimestamp fp));
                   all_passed = (ci_passed \<and> git_passed \<and> enc_passed)
               in Inr \<lparr>verify_id = i, verified = all_passed,
                        contentIntegrity_passed = ci_passed, contentIntegrity_hash = ci_hash,
                        gitTimestamp_passed = git_passed,
                        gitTimestamp_commitHash = gitCommitHash fp,
                        gitTimestamp_timestamp = gitTimestamp fp,
                        encryptionStatus_passed = enc_passed,
                        encryptionStatus_algorithm = ''XChaCha20-Poly1305'',
                        legalReadiness = all_passed, verifiedAt = now\<rparr>))"

definition createVerifyFootprintHandler ::
  "aead \<Rightarrow> (bytes \<Rightarrow> string) \<Rightarrow> store \<Rightarrow> error + bytes \<Rightarrow> string \<Rightarrow> string \<Rightarrow> error + verify_result" where
  "createVerifyFootprintHandler c sha256 db getDerivedKey now i =
     wrapToolHandler ''verify-footprint''
       ''Verify the footprint ID exists and encryption password is correct.''
       (verify_footprint_body c sha256 db getDerivedKey now i)"

section \<open>Key derivation\<close>

record DerivedKey =
  key :: bytes
  salt :: bytes

record KeyDerivationParams =
  memory :: nat
  iterations :: nat
  parallelism :: nat
  keyLength :: nat

definition DEFAULT_KDF_PARAMS :: KeyDerivationParams where
  "DEFAULT_KDF_PARAMS = \<lparr>memory = 65536, iterations = 3, parallelism = 4, keyLength = 32\<rparr>"

text \<open>\<open>Partial<KeyDerivationParams>\<close>, and the spread \<open>{ ...DEFAULT_KDF_PARAMS, ...params }\<close>.\<close>

record PartialParams =
  memory_opt :: "nat option"
  iterations_opt :: "nat option"
  parallelism_opt :: "nat option"
  keyLength_opt :: "nat option"

definition no_params :: PartialParams where
  "no_params = \<lparr>memory_opt = None, iterations_opt = None, parallelism_opt = None, keyLength_opt = None\<rparr>"

definition spread_params :: "KeyDerivationParams \<Rightarrow> PartialParams \<Rightarrow> KeyDerivationParams" where
  "spread_params d ps =
     \<lparr>memory = (case memory_opt ps of None \<Rightarrow> memory d | Some v \<Rightarrow> v),
      iterations = (case iterations_opt ps of None \<Rightarrow> iterations d | Some v \<Rightarrow> v),
      parallelism = (case parallelism_opt ps of None \<Rightarrow> parallelism d | Some v \<Rightarrow> v),
      keyLength = (case keyLength_opt ps of None \<Rightarrow> keyLength d | Some v \<Rightarrow> v)\<rparr>"

text \<open>
  The library's \<open>argon2id(password, salt, {m, t, p, dkLen})\<close> is a parameter of the
  model: a function of its six arguments, with \<open>Inl\<close> where it throws.
\<close>

type_synonym kdf = "string \<Rightarrow> bytes \<Rightarrow> nat \<Rightarrow> nat \<Rightarrow> nat \<Rightarrow> nat \<Rightarrow> error + bytes"

text \<open>\<open>deriveKey(password, params)\<close>; \<open>rnd\<close> is what \<open>randomBytes(16)\<close> returns at this call.\<close>

definition deriveKey :: "kdf \<Rightarrow> bytes \<Rightarrow> string \<Rightarrow> PartialParams \<Rightarrow> error + DerivedKey" where
  "deriveKey argon2id rnd password params =
     (if password = [] then Inl (Error ''Password cannot be empty'')
      else
        let kdfParams = spread_params DEFAULT_KDF_PARAMS params;
            salt' = rnd
        in case argon2id password salt' (memory kdfParams) (iterations kdfParams)
                  (parallelism kdfParams) (keyLength kdfParams) of
             Inl e \<Rightarrow> Inl e
           | Inr key' \<Rightarrow> Inr \<lparr>key = key', salt = salt'\<rparr>)"

text \<open>\<open>rederiveKey(password, salt, params)\<close>: it draws no random bytes; the salt is the caller's.\<close>

definition rederiveKey :: "kdf \<Rightarrow> string \<Rightarrow> bytes \<Rightarrow> PartialParams \<Rightarrow> error + DerivedKey" where
  "rederiveKey argon2id password salt' params =
     (if password = [] then Inl (Error ''Password cannot be empty'')
      else
        let kdfParams = spread_params DEFAULT_KDF_PARAMS params
        in if length salt' \<noteq> 16 then Inl (Error ''Salt must be 16 bytes'')
           else
             case argon2id password salt' (memory kdfParams) (iterations kdfParams)
                    (parallelism kdfParams) (keyLength kdfParams) of
               Inl e \<Rightarrow> Inl e
             | Inr key' \<Rightarrow> Inr \<lparr>key = key', salt = salt'\<rparr>)"

section \<open>Tags and search\<close>

text \<open>\<open>Array.prototype.join\<close> on strings.\<close>

fun join :: "string \<Rightarrow> string list \<Rightarrow> string" where
  "join sep [] = []"
| "join sep [x] = x"
| "join sep (x # y # ys) = x @ sep @ join sep (y # ys)"

text \<open>
  \<open>s.split(',')\<close>: the pieces between the commas; the empty string has one piece,
  which is empty.
\<close>

fun split_comma :: "string \<Rightarrow> string list" where
  "split_comma [] = [[]]"
| "split_comma (c # cs) =
     (if c = CHR '','' then [] # split_comma cs
      else (c # hd (split_comma cs)) # tl (split_comma cs))"

text \<open>
  \<open>s.trim()\<close>. Among the characters of a \<open>string\<close> (code points up to U+00FF) the
  white space and line terminators of JavaScript are U+0009 to U+000D, U+0020 and U+00A0.
\<close>

definition is_space :: "char \<Rightarrow> bool" where
  "is_space c = (of_char c \<in> {9, 10, 11, 12, 13, 32, 160 :: nat})"

definition trim :: "string \<Rightarrow> string" where
  "trim s = rev (dropWhile is_space (rev (dropWhile is_space s)))"

text \<open>\<open>[...new Set(xs)]\<close>: the elements in the order of their first occurrence.\<close>

definition dedup :: "'a list \<Rightarrow> 'a list" where
  "dedup xs = foldl (\<lambda>acc x. if x \<in> set acc then acc else acc @ [x]) [] xs"

text \<open>
  The \<open>LIKE\<close> operator of SQLite without \<open>ESCAPE\<close>: \<open>%\<close> matches any run of
  characters, \<open>_\<close> any one character, and every other character matches itself or,
  if it is an ASCII letter, its other case.
\<close>

definition ascii_lower :: "char \<Rightarrow> char" where
  "ascii_lower c =
     (if 65 \<le> (of_char c :: nat) \<and> (of_char c :: nat) \<le> 90 then char_of (of_char c + 32 :: nat) else c)"

fun like_match :: "string \<Rightarrow> string \<Rightarrow> bool" where
  "like_match [] s = (s = [])"
| "like_match (p # ps) [] = (p = CHR ''%'' \<and> like_match ps [])"
| "like_match (p # ps) (c # cs) =
     (if p = CHR ''%'' then like_match ps (c # cs) \<or> like_match (p # ps) cs
      else if p = CHR ''_'' then like_match ps cs
      else ascii_lower p = ascii_lower c \<and> like_match ps cs)"

text \<open>
  The engine reads both operands of \<open>LIKE\<close> as zero-terminated strings: the pattern and
  the value each end before their first U+0000, whatever follows it in the bound or stored
  text. (The comparison \<open>=\<close> takes the whole of both.) The engine also raises on a
  pattern longer than its limit, 50000 bytes unless configured otherwise; \<open>sql_like\<close> is
  the comparison for patterns within that limit.
\<close>

definition c_string :: "string \<Rightarrow> string" where
  "c_string s = takeWhile (\<lambda>c. c \<noteq> CHR 0x00) s"

definition sql_like :: "string \<Rightarrow> string \<Rightarrow> bool" where
  "sql_like pat s = like_match (c_string pat) (c_string s)"

text \<open>A \<open>NULL\<close> operand makes \<open>LIKE\<close> and \<open>=\<close> yield \<open>NULL\<close>, which a \<open>WHERE\<close> clause treats as false.\<close>

definition col_like :: "string option \<Rightarrow> string \<Rightarrow> bool" where
  "col_like col pat = (case col of None \<Rightarrow> False | Some s \<Rightarrow> sql_like pat s)"

text \<open>
  The options of \<open>search\<close>. A tag filter contributes, for each tag, the disjunction of
  three \<open>LIKE\<close> patterns and one equality on the trimmed tag.
\<close>

record search_options =
  query_opt :: "string option"
  tags_opt :: "string list option"
  dateFrom :: "string option"
  dateTo :: "string option"
  limit_opt :: "int option"
  offset_opt :: "int option"

definition tag_condition :: "string \<Rightarrow> evidence \<Rightarrow> bool" where
  "tag_condition tag r =
     (let trimmedTag = trim tag
      in col_like (tags r) (trimmedTag @ '',%'') \<or>
         col_like (tags r) (''%,'' @ trimmedTag @ '',%'') \<or>
         col_like (tags r) (''%,'' @ trimmedTag) \<or>
         tags r = Some trimmedTag)"

definition search_conditions :: "search_options \<Rightarrow> evidence \<Rightarrow> bool" where
  "search_conditions opts r =
     ((if truthy (query_opt opts) \<and> trim (the (query_opt opts)) \<noteq> []
       then sql_like (''%'' @ trim (the (query_opt opts)) @ ''%'') (conversationId r) \<or>
            col_like (tags r) (''%'' @ trim (the (query_opt opts)) @ ''%'')
       else True) \<and>
      (case tags_opt opts of
         Some tgs \<Rightarrow> (\<forall>tag \<in> set tgs. tag_condition tag r)
       | None \<Rightarrow> True) \<and>
      (if truthy (dateFrom opts) then the (dateFrom opts) \<le> timestamp r else True) \<and>
      (if truthy (dateTo opts) then timestamp r \<le> the (dateTo opts) else True))"

definition search :: "store \<Rightarrow> search_options \<Rightarrow> evidence list" where
  "search db opts =
     paginate (limit_opt opts) (case offset_opt opts of None \<Rightarrow> 0 | Some off \<Rightarrow> off)
       (order_by_timestamp_desc (filter (search_conditions opts) db))"

definition tags_only :: "string list \<Rightarrow> search_options" where
  "tags_only tgs =
     \<lparr>query_opt = None, tags_opt = Some tgs, dateFrom = None, dateTo = None,
      limit_opt = None, offset_opt = None\<rparr>"

section \<open>Tag mutations\<close>

text \<open>
  A statement that writes can fail in the engine. \<open>faulty i\<close> is \<open>Some msg\<close> when the
  \<open>UPDATE\<close> of the row with id \<open>i\<close> raises with message \<open>msg\<close>, and \<open>None\<close> when
  it goes through. Every mutation returns its outcome together with the table after it.
  Statements that only read are taken to succeed.
\<close>

type_synonym faults = "string \<Rightarrow> string option"

text \<open>\<open>UPDATE evidences SET tags = ?, updatedAt = ? WHERE id = ?\<close>, and its count of changed rows.\<close>

definition update_tags_where :: "store \<Rightarrow> string \<Rightarrow> string option \<Rightarrow> string \<Rightarrow> store" where
  "update_tags_where db i tgs now =
     map (\<lambda>r. if id_ev r = i then r\<lparr>tags := tgs, updatedAt := now\<rparr> else r) db"

definition changes :: "store \<Rightarrow> string \<Rightarrow> nat" where
  "changes db i = length (filter (\<lambda>r. id_ev r = i) db)"

text \<open>\<open>updateTags(id, tags)\<close>: the new value replaces the old one as it is.\<close>

definition updateTags :: "faults \<Rightarrow> store \<Rightarrow> string \<Rightarrow> string option \<Rightarrow> string \<Rightarrow> (error + bool) \<times> store" where
  "updateTags faulty db i tgs now =
     (case faulty i of
        Some msg \<Rightarrow> (Inl (Error (''Failed to update tags: '' @ msg)), db)
      | None \<Rightarrow> (Inr (changes db i > 0), update_tags_where db i tgs now))"


text \<open>
  \<open>db.transaction(fn)()\<close>: when the body throws, the engine rolls back to the state at
  \<open>BEGIN\<close> and the exception goes on to the caller.
\<close>

definition transaction :: "(store \<Rightarrow> (error + 'a) \<times> store) \<Rightarrow> store \<Rightarrow> (error + 'a) \<times> store" where
  "transaction body db =
     (case body db of
        (Inl e, db') \<Rightarrow> (Inl e, db)
      | (Inr v, db') \<Rightarrow> (Inr v, db'))"

text \<open>
  The loop of \<open>renameTag\<close> over the records that the search returned. \<open>clock i\<close> is
  the reading of the clock when the row with id \<open>i\<close> is written.
\<close>

fun rename_loop ::
  "faults \<Rightarrow> (string \<Rightarrow> string) \<Rightarrow> string \<Rightarrow> string \<Rightarrow> evidence list \<Rightarrow> nat \<Rightarrow> store \<Rightarrow> (error + nat) \<times> store" where
  "rename_loop faulty clock oldTag newTag [] updatedCount db = (Inr updatedCount, db)"
| "rename_loop faulty clock oldTag newTag (evidence # rest) updatedCount db =
     (if \<not> truthy (tags evidence) then rename_loop faulty clock oldTag newTag rest updatedCount db
      else
        let tgs = map trim (split_comma (the (tags evidence)));
            newTags = map (\<lambda>t. if t = oldTag then newTag else t) tgs
        in case updateTags faulty db (id_ev evidence) (Some (join '','' newTags)) (clock (id_ev evidence)) of
             (Inl e, db') \<Rightarrow> (Inl e, db')
           | (Inr updated, db') \<Rightarrow>
               rename_loop faulty clock oldTag newTag rest
                 (if updated then updatedCount + 1 else updatedCount) db')"

definition wrap_error :: "string \<Rightarrow> (error + 'a) \<times> store \<Rightarrow> (error + 'a) \<times> store" where
  "wrap_error prefix r =
     (case r of
        (Inl (Error m), db) \<Rightarrow> (Inl (Error (prefix @ m)), db)
      | (Inr v, db) \<Rightarrow> (Inr v, db))"

definition renameTag :: "faults \<Rightarrow> (string \<Rightarrow> string) \<Rightarrow> store \<Rightarrow> string \<Rightarrow> string \<Rightarrow> (error + nat) \<times> store" where
  "renameTag faulty clock db oldTag newTag =
     wrap_error ''Failed to rename tag: ''
       (transaction
          (\<lambda>db0. rename_loop faulty clock oldTag newTag (search db0 (tags_only [oldTag])) 0 db0) db)"



text \<open>The tag tokens of a row: the pieces of its stored string, none for \<open>null\<close>.\<close>

definition tag_tokens :: "evidence \<Rightarrow> string list" where
  "tag_tokens r = (case tags r of None \<Rightarrow> [] | Some s \<Rightarrow> split_comma s)"

text \<open>
  What a completed \<open>renameTag\<close> or \<open>removeTag\<close> amounts to: its targets are the
  records that the search returns and that have a non-empty tag string; each target gets
  its trimmed tokens back, with the tag replaced or left out, and its \<open>updatedAt\<close> set.
\<close>

definition tag_targets :: "store \<Rightarrow> string \<Rightarrow> evidence list" where
  "tag_targets db oldTag = filter (\<lambda>r. truthy (tags r)) (search db (tags_only [oldTag]))"

definition renamed_tags :: "string \<Rightarrow> string \<Rightarrow> evidence \<Rightarrow> string option" where
  "renamed_tags oldTag newTag r =
     Some (join '','' (map (\<lambda>t. if t = oldTag then newTag else t) (map trim (split_comma (the (tags r))))))"


definition rewrite_rows ::
  "(evidence \<Rightarrow> string option) \<Rightarrow> (string \<Rightarrow> string) \<Rightarrow> evidence list \<Rightarrow> store \<Rightarrow> store" where
  "rewrite_rows g clock targets db =
     map (\<lambda>r. if r \<in> set targets then r\<lparr>tags := g r, updatedAt := clock (id_ev r)\<rparr> else r) db"

section \<open>Export packager\<close>

text \<open>
  The files of an archive. A JSON file is kept as the object that is serialised into
  it, \<open>checksum.txt\<close> as its entries: the file is a fixed three-line header followed
  by one line \<open>hash\<close>, two spaces, \<open>path\<close> for each entry.
\<close>

datatype file_content =
    ManifestJson (version: string) (exportDate: string) (evidenceCount_m: nat) (includeGitInfo_m: bool)
  | EncryptedBytes bytes
  | MetadataJson string string string string string int "string option" bytes
  | GitInfoJson string string
  | ChecksumTxt "(string \<times> string) list"

text \<open>
  A \<open>JSZip\<close> object is the list of its file entries in insertion order; \<open>zip.file(path, data)\<close>
  replaces the entry of that path or appends a new one. The entries that \<open>JSZip\<close> adds for
  the folders on the way carry no data and are left out.
\<close>

type_synonym archive = "(string \<times> file_content) list"

definition zip_file :: "string \<Rightarrow> file_content \<Rightarrow> archive \<Rightarrow> archive" where
  "zip_file path data z = AList.update path data z"

record ExportResult =
  filename :: string
  zipData :: archive
  checksum :: string
  evidenceCount :: nat

definition EXPORT_FORMAT_VERSION :: string where
  "EXPORT_FORMAT_VERSION = ''1.0.0''"

definition MAX_EXPORT_SIZE_MB :: nat where
  "MAX_EXPORT_SIZE_MB = 100"

text \<open>Decimal digits of a natural number, and \<open>(n / 2^20).toFixed(1)\<close> for a byte count \<open>n\<close>.\<close>

fun show_nat :: "nat \<Rightarrow> string" where
  "show_nat n =
     (if n < 10 then [char_of (48 + n)] else show_nat (n div 10) @ [char_of (48 + n mod 10)])"

definition megabytes_toFixed1 :: "nat \<Rightarrow> string" where
  "megabytes_toFixed1 n =
     (let tenths = (n * 10 + 524288) div 1048576
      in show_nat (tenths div 10) @ ''.'' @ show_nat (tenths mod 10))"

text \<open>
  The second pass over the requested ids, which fetches each record again and throws
  for one that is gone.
\<close>

fun fetch_all :: "store \<Rightarrow> string list \<Rightarrow> error + evidence list" where
  "fetch_all db [] = Inr []"
| "fetch_all db (i # is) =
     (case findById db i of
        None \<Rightarrow> Inl (Error (''Evidence '' @ i @ '' not found''))
      | Some ev \<Rightarrow> (case fetch_all db is of Inl e \<Rightarrow> Inl e | Inr evs \<Rightarrow> Inr (ev # evs)))"

text \<open>
  One round of the loop over the records: it adds \<open>encrypted-data\<close> and
  \<open>metadata.json\<close> to the record's folder, and \<open>git-info.json\<close> when that is asked
  for and the record has both git fields, and pushes one checksum entry for each.
  \<open>sha256\<close> is the hex digest of a file's bytes.
\<close>

definition add_evidence ::
  "(file_content \<Rightarrow> string) \<Rightarrow> bool \<Rightarrow> archive \<times> (string \<times> string) list \<Rightarrow> evidence
     \<Rightarrow> archive \<times> (string \<times> string) list" where
  "add_evidence sha256 includeGitInfo st ev =
     (let (zip0, entries0) = st;
          evidenceFolder = ''evidences/'' @ id_ev ev;
          data = EncryptedBytes (encryptedContent ev);
          zip1 = zip_file (evidenceFolder @ ''/encrypted-data'') data zip0;
          entries1 = entries0 @ [(sha256 data, evidenceFolder @ ''/encrypted-data'')];
          metadata = MetadataJson (id_ev ev) (timestamp ev) (conversationId ev) (llmProvider ev)
                       (contentHash ev) (messageCount ev) (tags ev) (nonce ev);
          zip2 = zip_file (evidenceFolder @ ''/metadata.json'') metadata zip1;
          entries2 = entries1 @ [(sha256 metadata, evidenceFolder @ ''/metadata.json'')]
      in if includeGitInfo \<and> truthy (gitCommitHash ev) \<and> truthy (gitTimestamp ev) then
           let gitInfo = GitInfoJson (the (gitCommitHash ev)) (the (gitTimestamp ev));
               zip3 = zip_file (evidenceFolder @ ''/git-info.json'') gitInfo zip2;
               entries3 = entries2 @ [(sha256 gitInfo, evidenceFolder @ ''/git-info.json'')]
           in (zip3, entries3)
         else (zip2, entries2))"

text \<open>
  \<open>exportEvidences(db, options)\<close>. \<open>evidenceIds\<close> is \<open>None\<close> when the option is
  omitted; \<open>zip_sha256\<close> is the digest of the generated ZIP bytes; \<open>now1\<close> and \<open>now2\<close>
  are the two clock readings, for the manifest and for the file name. Every error is
  rethrown with the prefix of the outer \<open>catch\<close>.
\<close>

definition select_evidences :: "store \<Rightarrow> string list option \<Rightarrow> error + evidence list" where
  "select_evidences db evidenceIds =
     (case evidenceIds of
        Some ids \<Rightarrow>
          (let notFound = filter (\<lambda>i. findById db i = None) ids
           in if length notFound > 0
              then Inl (Error (''Evidence IDs not found: '' @ join '', '' notFound))
              else fetch_all db ids)
      | None \<Rightarrow> Inr (list_ev db None None))"

definition build_archive ::
  "(file_content \<Rightarrow> string) \<Rightarrow> bool \<Rightarrow> string \<Rightarrow> evidence list \<Rightarrow> archive" where
  "build_archive sha256 includeGitInfo now1 evidences =
     (let manifest = ManifestJson EXPORT_FORMAT_VERSION now1 (length evidences) includeGitInfo;
          zip0 = zip_file ''manifest.json'' manifest [];
          (zip1, checksumEntries) = foldl (add_evidence sha256 includeGitInfo) (zip0, []) evidences
      in zip_file ''checksum.txt'' (ChecksumTxt checksumEntries) zip1)"

definition exportEvidences ::
  "(file_content \<Rightarrow> string) \<Rightarrow> (archive \<Rightarrow> string) \<Rightarrow> store \<Rightarrow> string list option \<Rightarrow> bool
     \<Rightarrow> string \<Rightarrow> string \<Rightarrow> error + ExportResult" where
  "exportEvidences sha256 zip_sha256 db evidenceIds includeGitInfo now1 now2 =
     (case
        (case select_evidences db evidenceIds of
           Inl e \<Rightarrow> Inl e
         | Inr evidences \<Rightarrow>
             (let size = sum_list (map (\<lambda>e. length (encryptedContent e)) evidences)
              in if size > MAX_EXPORT_SIZE_MB * (1024 * 1024) then
                   Inl (Error (''Export size ('' @ megabytes_toFixed1 size @ ''MB) exceeds limit ('' @
                          show_nat MAX_EXPORT_SIZE_MB @ ''MB). '' @
                          ''Please export in smaller batches using the evidenceIds parameter.''))
                 else
                   let zip = build_archive sha256 includeGitInfo now1 evidences
                   in Inr \<lparr>filename = ''evidence-export-'' @ takeWhile (\<lambda>ch. ch \<noteq> CHR ''T'') now2 @ ''.zip'',
                           zipData = zip, checksum = zip_sha256 zip,
                           evidenceCount = length evidences\<rparr>))
      of
        Inl (Error m) \<Rightarrow> Inl (Error (''Failed to export evidences: '' @ m))
      | Inr r \<Rightarrow> Inr r)"

text \<open>The paths of the files in an archive, and the paths that its \<open>checksum.txt\<close> lists.\<close>

definition archive_paths :: "archive \<Rightarrow> string list" where
  "archive_paths z = map fst z"

definition checksum_entries :: "archive \<Rightarrow> (string \<times> string) list" where
  "checksum_entries z =
     (case map_of z ''checksum.txt'' of Some (ChecksumTxt es) \<Rightarrow> es | _ \<Rightarrow> [])"

definition checksum_paths :: "archive \<Rightarrow> string list" where
  "checksum_paths z = map snd (checksum_entries z)"

text \<open>The files that the export writes for one record, in the order it writes them.\<close>

definition record_files :: "bool \<Rightarrow> evidence \<Rightarrow> (string \<times> file_content) list" where
  "record_files includeGitInfo ev =
     [(''evidences/'' @ id_ev ev @ ''/encrypted-data'', EncryptedBytes (encryptedContent ev)),
      (''evidences/'' @ id_ev ev @ ''/metadata.json'',
         MetadataJson (id_ev ev) (timestamp ev) (conversationId ev) (llmProvider ev)
           (contentHash ev) (messageCount ev) (tags ev) (nonce ev))] @
     (if includeGitInfo \<and> truthy (gitCommitHash ev) \<and> truthy (gitTimestamp ev)
      then [(''evidences/'' @ id_ev ev @ ''/git-info.json'',
               GitInfoJson (the (gitCommitHash ev)) (the (gitTimestamp ev)))]
      else [])"

section \<open>Example data\<close>

text \<open>A row with the given id, timestamp and tags, and a three-row table.\<close>

definition sample_row :: "string \<Rightarrow> string \<Rightarrow> string option \<Rightarrow> evidence" where
  "sample_row i ts tg =
     \<lparr>id_ev = i, timestamp = ts, conversationId = ''conv'', llmProvider = ''Claude'',
      encryptedContent = [1, 2, 3], nonce = replicate 24 0, contentHash = ''00'',
      messageCount = 1, gitCommitHash = None, gitTimestamp = None, tags = tg,
      createdAt = ts, updatedAt = ts\<rparr>"

definition sample_store :: store where
  "sample_store =
     [sample_row ''a'' ''2026-01-01T00:00:00.000Z'' (Some ''api,web''),
      sample_row ''b'' ''2026-01-02T00:00:00.000Z'' None,
      sample_row ''c'' ''2026-01-03T00:00:00.000Z'' (Some ''apigee'')]"

text \<open>Two rows that both carry the tag \<open>api\<close>; a search returns the later one first.\<close>

definition api_store :: store where
  "api_store =
     [sample_row ''a'' ''2026-01-01T00:00:00.000Z'' (Some ''api,web''),
      sample_row ''b'' ''2026-01-02T00:00:00.000Z'' (Some ''api'')]"

text \<open>
  A cipher that meets the library's promise in the plainest way: it leaves the text as
  it is and appends sixteen bytes taken from key and nonce as the tag.
\<close>

definition plain_aead :: aead where
  "plain_aead =
     \<lparr>seal = (\<lambda>k n p. p @ take 16 (k @ n)),
      unseal = (\<lambda>k n ct.
        if 16 \<le> length ct \<and> drop (length ct - 16) ct = take 16 (k @ n)
        then Some (take (length ct - 16) ct) else None)\<rparr>"

text \<open>A key derivation function that returns as many bytes as it is asked for.\<close>

definition sample_kdf :: kdf where
  "sample_kdf password salt' m t p dkLen = Inr (replicate dkLen (of_nat (length password + m + t + p)))"

section \<open>Properties of listing\<close>

lemma length_order_by_timestamp_desc [simp]:
  "length (order_by_timestamp_desc rows) = length rows"
  by (simp add: order_by_timestamp_desc_def)

lemma set_order_by_timestamp_desc [simp]:
  "set (order_by_timestamp_desc rows) = set rows"
  by (simp add: order_by_timestamp_desc_def)

lemma list_ev_all [simp]: "list_ev db None None = order_by_timestamp_desc db"
  by (simp add: list_ev_def paginate_def)

lemma length_list_ev:
  assumes "limit = None \<or> 0 < the limit" and "offset = None \<or> 0 \<le> the offset"
  shows "length (list_ev db limit offset) =
           (case limit of
              None \<Rightarrow> length db - nat (case offset of None \<Rightarrow> 0 | Some off \<Rightarrow> off)
            | Some l \<Rightarrow> min (nat l) (length db - nat (case offset of None \<Rightarrow> 0 | Some off \<Rightarrow> off)))"
  using assms
  by (auto simp: list_ev_def paginate_def sql_limit_offset_def Let_def split: option.splits)

lemma wrapToolHandler_Inr:
  "wrapToolHandler n a r = Inr v \<longleftrightarrow> r = Inr v"
  by (auto simp: wrapToolHandler_def split: sum.splits error.splits)

text \<open>
  C8. Whenever list-footprints returns, its \<open>total\<close> is the length of the page it
  returns: the number of stored records left after the offset, cut at the limit. It is
  not the number of records in the store.
\<close>

theorem list_footprints_total_is_page_length:
  assumes "createListFootprintsHandler db limit offset = Inr r"
  shows "total_n r = length (footprints r) \<and>
         total_n r = (case limit of
                      None \<Rightarrow> length db - nat (case offset of None \<Rightarrow> 0 | Some off \<Rightarrow> off)
                    | Some l \<Rightarrow> min (nat l) (length db - nat (case offset of None \<Rightarrow> 0 | Some off \<Rightarrow> off)))"
proof -
  from assms have body: "list_footprints_body db limit offset = Inr r"
    by (simp add: createListFootprintsHandler_def wrapToolHandler_Inr)
  then have ok: "limit = None \<or> 0 < the limit" "offset = None \<or> 0 \<le> the offset"
    by (auto simp: list_footprints_body_def split: if_splits)
  from body have r: "r = \<lparr>footprints = map to_entry (list_ev db limit offset),
                          total_n = length (list_ev db limit offset)\<rparr>"
    by (auto simp: list_footprints_body_def Let_def split: if_splits)
  show ?thesis
    using length_list_ev [OF ok, of db] by (simp add: r)
qed

theorem list_footprints_total_is_page_length_witness:
  "createListFootprintsHandler sample_store (Some 2) None =
     Inr \<lparr>footprints = map to_entry (list_ev sample_store (Some 2) None), total_n = 2\<rparr> \<and>
   length sample_store = 3"
proof -
  have len: "length sample_store = 3"
    by (simp add: sample_store_def)
  have run: "createListFootprintsHandler sample_store (Some 2) None =
      Inr \<lparr>footprints = map to_entry (list_ev sample_store (Some 2) None),
           total_n = length (list_ev sample_store (Some 2) None)\<rparr>"
    by (simp add: createListFootprintsHandler_def list_footprints_body_def wrapToolHandler_def Let_def)
  from list_footprints_total_is_page_length [OF run] len show ?thesis
    using run by simp
qed

section \<open>Properties of the verifier\<close>

lemma findById_None_iff: "findById db i = None \<longleftrightarrow> i \<notin> set (map id_ev db)"
  by (auto simp: findById_def find_None_iff)

lemma findById_Some_mem: "findById db i = Some fp \<Longrightarrow> fp \<in> set db \<and> id_ev fp = i"
  by (auto simp: findById_def find_Some_iff)

text \<open>
  C7. For a record that is in the store, once the key is at hand, a failing decryption
  makes verify-footprint return a result, not an error: the content-integrity check and
  the decryption check are false and the computed hash is the empty string.
\<close>

theorem verify_failed_decryption_is_reported:
  assumes "findById db i = Some fp"
    and "getDerivedKey = Inr k"
    and "decrypt c (encryptedContent fp) (nonce fp) k = Inl e"
  shows "\<exists>r. createVerifyFootprintHandler c sha256 db getDerivedKey now i = Inr r \<and>
             \<not> contentIntegrity_passed r \<and> \<not> encryptionStatus_passed r \<and>
             contentIntegrity_hash r = [] \<and> \<not> verified r"
  using assms
  by (simp add: createVerifyFootprintHandler_def verify_footprint_body_def wrapToolHandler_def)

theorem verify_failed_decryption_is_reported_witness:
  "findById sample_store ''a'' = Some (sample_row ''a'' ''2026-01-01T00:00:00.000Z'' (Some ''api,web'')) \<and>
   decrypt plain_aead [1, 2, 3] (replicate 24 0) (replicate 32 7) =
     Inl (Error ''Decryption failed: invalid key or tampered data'') \<and>
   (\<exists>r. createVerifyFootprintHandler plain_aead (\<lambda>bs. ''digest'') sample_store
           (Inr (replicate 32 7)) ''2026-02-01T00:00:00.000Z'' ''a'' = Inr r \<and>
        \<not> contentIntegrity_passed r \<and> \<not> encryptionStatus_passed r \<and>
        contentIntegrity_hash r = [] \<and> \<not> verified r)"
proof -
  have found: "findById sample_store ''a'' =
      Some (sample_row ''a'' ''2026-01-01T00:00:00.000Z'' (Some ''api,web''))"
    by (simp add: findById_def sample_store_def sample_row_def)
  have fails: "decrypt plain_aead
      (encryptedContent (sample_row ''a'' ''2026-01-01T00:00:00.000Z'' (Some ''api,web'')))
      (nonce (sample_row ''a'' ''2026-01-01T00:00:00.000Z'' (Some ''api,web'')))
      (replicate 32 7) = Inl (Error ''Decryption failed: invalid key or tampered data'')"
    by (simp add: decrypt_def plain_aead_def sample_row_def)
  from verify_failed_decryption_is_reported [OF found refl fails] found fails
  show ?thesis by (simp add: sample_row_def)
qed

text \<open>
  C10. For an id that no stored record carries, verify-footprint raises the not-found
  error (in the wrapper's format); it does not return a verification result.
\<close>

theorem verify_unknown_id_raises_not_found:
  assumes "i \<notin> set (map id_ev db)"
  shows "createVerifyFootprintHandler c sha256 db getDerivedKey now i =
           Inl (Error (''[Tool: verify-footprint] Footprint with ID '' @ i @
             '' not found. Suggested action: Verify the footprint ID exists and encryption password is correct.''))"
proof -
  from assms have "findById db i = None"
    by (simp add: findById_None_iff)
  then show ?thesis
    by (simp add: createVerifyFootprintHandler_def verify_footprint_body_def wrapToolHandler_def)
qed

theorem verify_unknown_id_raises_not_found_witness:
  "''zz'' \<notin> set (map id_ev sample_store) \<and>
   createVerifyFootprintHandler plain_aead (\<lambda>bs. ''digest'') sample_store
       (Inr (replicate 32 7)) ''2026-02-01T00:00:00.000Z'' ''zz'' =
     Inl (Error ''[Tool: verify-footprint] Footprint with ID zz not found. Suggested action: Verify the footprint ID exists and encryption password is correct.'')"
proof -
  have absent: "''zz'' \<notin> set (map id_ev sample_store)"
    by (simp add: sample_store_def sample_row_def)
  from verify_unknown_id_raises_not_found [OF absent] absent show ?thesis
    by simp
qed

section \<open>Properties of the export packager\<close>

lemma add_evidence_files:
  "add_evidence h g (z, es) ev =
     (foldl (\<lambda>z pc. zip_file (fst pc) (snd pc) z) z (record_files g ev),
      es @ map (\<lambda>pc. (h (snd pc), fst pc)) (record_files g ev))"
  by (simp add: add_evidence_def record_files_def Let_def)

lemma foldl_add_evidence:
  "foldl (add_evidence h g) (z, es) evs =
     (foldl (\<lambda>z pc. zip_file (fst pc) (snd pc) z) z (concat (map (record_files g) evs)),
      es @ map (\<lambda>pc. (h (snd pc), fst pc)) (concat (map (record_files g) evs)))"
  by (induction evs arbitrary: z es) (simp_all add: add_evidence_files)

lemma map_of_zip_file: "map_of (zip_file p c z) = (map_of z)(p \<mapsto> c)"
  by (simp add: zip_file_def update_conv')

lemma paths_zip_file: "set (archive_paths (zip_file p c z)) = insert p (set (archive_paths z))"
  by (simp add: zip_file_def archive_paths_def dom_update)

lemma paths_foldl_zip_file:
  "set (archive_paths (foldl (\<lambda>z pc. zip_file (fst pc) (snd pc) z) z fs)) =
     set (archive_paths z) \<union> set (map fst fs)"
  by (induction fs arbitrary: z) (auto simp: paths_zip_file)

lemma map_of_foldl_zip_file:
  "map_of (foldl (\<lambda>z pc. zip_file (fst pc) (snd pc) z) z fs) = map_of z ++ map_of (rev fs)"
  by (induction fs arbitrary: z) (simp_all add: map_of_zip_file)

lemma build_archive_entries:
  "checksum_entries (build_archive h g now1 evs) =
     map (\<lambda>pc. (h (snd pc), fst pc)) (concat (map (record_files g) evs))"
  by (simp add: build_archive_def checksum_entries_def foldl_add_evidence map_of_zip_file Let_def)

lemma build_archive_paths:
  "set (archive_paths (build_archive h g now1 evs)) =
     {''manifest.json'', ''checksum.txt''} \<union> set (map fst (concat (map (record_files g) evs)))"
proof -
  have "set (archive_paths (build_archive h g now1 evs)) =
      insert ''checksum.txt'' (set (archive_paths (zip_file ''manifest.json''
          (ManifestJson EXPORT_FORMAT_VERSION now1 (length evs) g) [])) \<union>
        set (map fst (concat (map (record_files g) evs))))"
    by (simp add: build_archive_def foldl_add_evidence paths_zip_file paths_foldl_zip_file Let_def)
  also have "set (archive_paths (zip_file ''manifest.json''
          (ManifestJson EXPORT_FORMAT_VERSION now1 (length evs) g) [])) = {''manifest.json''}"
    by (simp add: zip_file_def archive_paths_def)
  finally show ?thesis by auto
qed

text \<open>The paths of one record's files lie in its folder, and two folders share no path.\<close>

lemma record_files_keys:
  assumes "p \<in> set (map fst (record_files g ev))"
  shows "\<exists>s. p = ''evidences/'' @ id_ev ev @ s \<and>
           s \<in> {''/encrypted-data'', ''/metadata.json'', ''/git-info.json''}"
  using assms by (auto simp: record_files_def split: if_splits)

lemma path_suffix_cases:
  assumes "''evidences/'' @ i @ s1 = ''evidences/'' @ j @ s2"
    and "s1 \<in> {''/encrypted-data'', ''/metadata.json'', ''/git-info.json''}"
    and "s2 \<in> {''/encrypted-data'', ''/metadata.json'', ''/git-info.json''}"
  shows "i = j \<and> s1 = s2"
proof -
  from assms(1) have eq: "i @ s1 = j @ s2" by simp
  then have "last (i @ s1) = last (j @ s2)" by simp
  with assms(2,3) have "length s1 = length s2" by auto
  with eq show ?thesis by simp
qed

lemma distinct_record_files: "distinct (map fst (record_files g ev))"
  by (auto simp: record_files_def)

lemma distinct_all_record_files:
  assumes "distinct (map id_ev evs)"
  shows "distinct (map fst (concat (map (record_files g) evs)))"
  using assms
proof (induction evs)
  case Nil
  then show ?case by simp
next
  case (Cons ev evs)
  have "set (map fst (record_files g ev)) \<inter> set (map fst (concat (map (record_files g) evs))) = {}"
  proof (rule ccontr)
    assume "\<not> ?thesis"
    then obtain p where p1: "p \<in> set (map fst (record_files g ev))"
      and p2: "p \<in> set (map fst (concat (map (record_files g) evs)))" by blast
    from p2 obtain ev' where ev': "ev' \<in> set evs" "p \<in> set (map fst (record_files g ev'))"
      by auto
    from record_files_keys [OF p1] obtain s1 where s1: "p = ''evidences/'' @ id_ev ev @ s1"
      "s1 \<in> {''/encrypted-data'', ''/metadata.json'', ''/git-info.json''}" by blast
    from record_files_keys [OF ev'(2)] obtain s2 where s2: "p = ''evidences/'' @ id_ev ev' @ s2"
      "s2 \<in> {''/encrypted-data'', ''/metadata.json'', ''/git-info.json''}" by blast
    from path_suffix_cases [OF _ s1(2) s2(2)] s1(1) s2(1) have "id_ev ev = id_ev ev'" by metis
    with ev'(1) Cons.prems show False by auto
  qed
  with Cons distinct_record_files show ?case by simp
qed

lemma map_of_build_archive:
  assumes "distinct (map id_ev evs)" and "ev \<in> set evs" and "(p, c) \<in> set (record_files g ev)"
  shows "map_of (build_archive h g now1 evs) p = Some c"
proof -
  let ?fs = "concat (map (record_files g) evs)"
  have mem: "(p, c) \<in> set (rev ?fs)"
    using assms(2,3) by auto
  have "distinct (map fst (rev ?fs))"
    using distinct_all_record_files [OF assms(1), of g] by (simp add: rev_map [symmetric])
  then have look: "map_of (rev ?fs) p = Some c"
    using mem by (rule map_of_is_SomeI)
  have "p \<in> set (map fst (record_files g ev))"
    using assms(3) by force
  from record_files_keys [OF this] have ne: "p \<noteq> ''checksum.txt''"
    by auto
  show ?thesis
    using look ne
    by (simp add: build_archive_def foldl_add_evidence map_of_zip_file map_of_foldl_zip_file Let_def)
qed

lemma select_two:
  assumes "findById db a = Some ra" "findById db b = Some rb"
  shows "select_evidences db (Some [a, b]) = Inr [ra, rb]"
  using assms by (simp add: select_evidences_def)

lemma select_all: "select_evidences db None = Inr (order_by_timestamp_desc db)"
  by (simp add: select_evidences_def)

lemma exportEvidences_success:
  assumes "select_evidences db ids = Inr evs"
    and "sum_list (map (\<lambda>e. length (encryptedContent e)) evs) \<le> 104857600"
  shows "exportEvidences h zh db ids g now1 now2 =
     Inr \<lparr>filename = ''evidence-export-'' @ takeWhile (\<lambda>ch. ch \<noteq> CHR ''T'') now2 @ ''.zip'',
          zipData = build_archive h g now1 evs, checksum = zh (build_archive h g now1 evs),
          evidenceCount = length evs\<rparr>"
  using assms by (simp add: exportEvidences_def MAX_EXPORT_SIZE_MB_def Let_def)

lemma sum_sizes_order:
  "sum_list (map f (order_by_timestamp_desc db)) = sum_list (map (f :: evidence \<Rightarrow> nat) db)"
proof -
  have "mset (order_by_timestamp_desc db) = mset db"
    by (simp add: order_by_timestamp_desc_def)
  then have "mset (map f (order_by_timestamp_desc db)) = mset (map f db)"
    by (metis mset_map)
  then show ?thesis
    by (metis sum_mset_sum_list)
qed

text \<open>
  C2, as the code has it. When both records exist and their payloads fit under the size
  ceiling, the export of \<open>[a, b]\<close> succeeds, and \<open>checksum.txt\<close> lists, in this order,
  the files of record \<open>a\<close> and the files of record \<open>b\<close> (\<open>encrypted-data\<close>,
  \<open>metadata.json\<close>, and \<open>git-info.json\<close> when it is written), each with the digest of
  its content. The archive also holds \<open>manifest.json\<close> and \<open>checksum.txt\<close>, and
  neither of them is listed.
\<close>

theorem export_checksum_lists_record_files:
  assumes "findById db a = Some ra" and "findById db b = Some rb"
    and "length (encryptedContent ra) + length (encryptedContent rb) \<le> 104857600"
  shows "\<exists>r. exportEvidences h zh db (Some [a, b]) g now1 now2 = Inr r \<and>
           evidenceCount r = 2 \<and>
           checksum_entries (zipData r) =
             map (\<lambda>pc. (h (snd pc), fst pc)) (record_files g ra @ record_files g rb) \<and>
           set (archive_paths (zipData r)) =
             {''manifest.json'', ''checksum.txt''} \<union> set (map fst (record_files g ra @ record_files g rb)) \<and>
           ''manifest.json'' \<notin> set (checksum_paths (zipData r)) \<and>
           ''checksum.txt'' \<notin> set (checksum_paths (zipData r))"
proof -
  have sel: "select_evidences db (Some [a, b]) = Inr [ra, rb]"
    using assms(1,2) by (rule select_two)
  have size: "sum_list (map (\<lambda>e. length (encryptedContent e)) [ra, rb]) \<le> 104857600"
    using assms(3) by simp
  have no_manifest: "''manifest.json'' \<notin> set (checksum_paths (build_archive h g now1 [ra, rb]))"
    by (auto simp: checksum_paths_def build_archive_entries record_files_def)
  have no_checksum: "''checksum.txt'' \<notin> set (checksum_paths (build_archive h g now1 [ra, rb]))"
    by (auto simp: checksum_paths_def build_archive_entries record_files_def)
  show ?thesis
    using no_manifest no_checksum
    by (simp add: exportEvidences_success [OF sel size] build_archive_entries build_archive_paths)
qed

theorem export_checksum_lists_record_files_witness:
  "findById sample_store ''a'' = Some (sample_row ''a'' ''2026-01-01T00:00:00.000Z'' (Some ''api,web'')) \<and>
   findById sample_store ''b'' = Some (sample_row ''b'' ''2026-01-02T00:00:00.000Z'' None) \<and>
   (\<exists>r. exportEvidences (\<lambda>f. ''h'') (\<lambda>z. ''z'') sample_store (Some [''a'', ''b'']) True
           ''2026-02-01T00:00:00.000Z'' ''2026-02-01T00:00:00.001Z'' = Inr r \<and>
        evidenceCount r = 2 \<and>
        checksum_entries (zipData r) =
          map (\<lambda>pc. ((\<lambda>f. ''h'') (snd pc), fst pc))
            (record_files True (sample_row ''a'' ''2026-01-01T00:00:00.000Z'' (Some ''api,web'')) @
             record_files True (sample_row ''b'' ''2026-01-02T00:00:00.000Z'' None)) \<and>
        set (archive_paths (zipData r)) =
          {''manifest.json'', ''checksum.txt''} \<union>
          set (map fst (record_files True (sample_row ''a'' ''2026-01-01T00:00:00.000Z'' (Some ''api,web'')) @
                        record_files True (sample_row ''b'' ''2026-01-02T00:00:00.000Z'' None))) \<and>
        ''manifest.json'' \<notin> set (checksum_paths (zipData r)) \<and>
        ''checksum.txt'' \<notin> set (checksum_paths (zipData r)))"
proof -
  have a: "findById sample_store ''a'' = Some (sample_row ''a'' ''2026-01-01T00:00:00.000Z'' (Some ''api,web''))"
    by (simp add: findById_def sample_store_def sample_row_def)
  have b: "findById sample_store ''b'' = Some (sample_row ''b'' ''2026-01-02T00:00:00.000Z'' None)"
    by (simp add: findById_def sample_store_def sample_row_def)
  have size: "length (encryptedContent (sample_row ''a'' ''2026-01-01T00:00:00.000Z'' (Some ''api,web''))) +
      length (encryptedContent (sample_row ''b'' ''2026-01-02T00:00:00.000Z'' None)) \<le> 104857600"
    by (simp add: sample_row_def)
  note export_checksum_lists_record_files [OF a b size, of "\<lambda>f. ''h''" "\<lambda>z. ''z''" True
      "''2026-02-01T00:00:00.000Z''" "''2026-02-01T00:00:00.001Z''"]
  with a b show ?thesis by (intro conjI)
qed

text \<open>
  The claim as the specification words it fails on that export: \<open>manifest.json\<close> is a
  file of the archive, and \<open>checksum.txt\<close> has no line for it.
\<close>

theorem export_checksum_manifest_counterexample:
  "case exportEvidences (\<lambda>f. ''h'') (\<lambda>z. ''z'') sample_store (Some [''a'', ''b'']) False
          ''2026-02-01T00:00:00.000Z'' ''2026-02-01T00:00:00.001Z'' of
     Inl e \<Rightarrow> False
   | Inr r \<Rightarrow> ''manifest.json'' \<in> set (archive_paths (zipData r)) \<and>
             ''manifest.json'' \<notin> set (checksum_paths (zipData r)) \<and>
             checksum_paths (zipData r) =
               [''evidences/a/encrypted-data'', ''evidences/a/metadata.json'',
                ''evidences/b/encrypted-data'', ''evidences/b/metadata.json'']"
proof -
  have sel: "select_evidences sample_store (Some [''a'', ''b'']) =
      Inr [sample_row ''a'' ''2026-01-01T00:00:00.000Z'' (Some ''api,web''),
           sample_row ''b'' ''2026-01-02T00:00:00.000Z'' None]"
    by (simp add: select_evidences_def findById_def sample_store_def sample_row_def)
  have size: "sum_list (map (\<lambda>e. length (encryptedContent e))
      [sample_row ''a'' ''2026-01-01T00:00:00.000Z'' (Some ''api,web''),
       sample_row ''b'' ''2026-01-02T00:00:00.000Z'' None]) \<le> 104857600"
    by (simp add: sample_row_def)
  show ?thesis
    by (simp add: exportEvidences_success [OF sel size] build_archive_paths checksum_paths_def
        build_archive_entries record_files_def sample_row_def)
qed

text \<open>
  C9. With \<open>evidenceIds\<close> omitted and the stored payloads under the size ceiling, the
  export succeeds and takes every stored record: the count is the number of rows, the
  files of the archive are \<open>manifest.json\<close>, \<open>checksum.txt\<close> and the files of every
  row's folder, and each of these files holds what its row holds.
\<close>

theorem export_all_when_ids_omitted:
  assumes "primary_key db"
    and "sum_list (map (\<lambda>e. length (encryptedContent e)) db) \<le> 104857600"
  shows "\<exists>r. exportEvidences h zh db None g now1 now2 = Inr r \<and>
           evidenceCount r = length db \<and>
           set (archive_paths (zipData r)) =
             {''manifest.json'', ''checksum.txt''} \<union> set (map fst (concat (map (record_files g) db))) \<and>
           (\<forall>ev\<in>set db. \<forall>f\<in>set (record_files g ev). map_of (zipData r) (fst f) = Some (snd f))"
proof -
  have size: "sum_list (map (\<lambda>e. length (encryptedContent e)) (order_by_timestamp_desc db)) \<le> 104857600"
    using assms(2) by (simp add: sum_sizes_order)
  have "mset (map id_ev (order_by_timestamp_desc db)) = mset (map id_ev db)"
    by (simp add: order_by_timestamp_desc_def)
  then have dist: "distinct (map id_ev (order_by_timestamp_desc db))"
    using assms(1) by (metis primary_key_def mset_eq_imp_distinct_iff)
  have files: "\<forall>ev\<in>set db. \<forall>f\<in>set (record_files g ev).
      map_of (build_archive h g now1 (order_by_timestamp_desc db)) (fst f) = Some (snd f)"
    using map_of_build_archive [OF dist] by simp
  show ?thesis
    using files
    by (simp add: exportEvidences_success [OF select_all size] build_archive_paths)
qed

theorem export_all_when_ids_omitted_witness:
  "primary_key sample_store \<and>
   sum_list (map (\<lambda>e. length (encryptedContent e)) sample_store) \<le> 104857600 \<and>
   (\<exists>r. exportEvidences (\<lambda>f. ''h'') (\<lambda>z. ''z'') sample_store None True
           ''2026-02-01T00:00:00.000Z'' ''2026-02-01T00:00:00.001Z'' = Inr r \<and>
        evidenceCount r = length sample_store \<and>
        set (archive_paths (zipData r)) =
          {''manifest.json'', ''checksum.txt''} \<union> set (map fst (concat (map (record_files True) sample_store))) \<and>
        (\<forall>ev\<in>set sample_store. \<forall>f\<in>set (record_files True ev). map_of (zipData r) (fst f) = Some (snd f)))"
proof -
  have pk: "primary_key sample_store"
    by (simp add: primary_key_def sample_store_def sample_row_def)
  have size: "sum_list (map (\<lambda>e. length (encryptedContent e)) sample_store) \<le> 104857600"
    by (simp add: sample_store_def sample_row_def)
  note export_all_when_ids_omitted [OF pk size, of "\<lambda>f. ''h''" "\<lambda>z. ''z''" True
      "''2026-02-01T00:00:00.000Z''" "''2026-02-01T00:00:00.001Z''"]
  with pk size show ?thesis by (intro conjI)
qed

section \<open>Properties of key derivation\<close>

text \<open>
  C6. For a non-empty password and a 16-byte salt, where the library's Argon2id returns
  its 32 bytes for them under the default parameters, any two results of
  \<open>rederiveKey(password, salt)\<close> are the same success: they carry that very 32-byte key
  and the salt that was passed in. (The library function is deterministic: it is a
  function of its arguments.)
\<close>

theorem rederiveKey_same_inputs_same_key:
  assumes "password \<noteq> []" and "length salt0 = 16"
    and "argon2id password salt0 65536 3 4 32 = Inr k" and "length k = 32"
    and "r1 = rederiveKey argon2id password salt0 no_params"
    and "r2 = rederiveKey argon2id password salt0 no_params"
  shows "r1 = Inr \<lparr>key = k, salt = salt0\<rparr> \<and> r2 = Inr \<lparr>key = k, salt = salt0\<rparr> \<and> length k = 32"
  using assms
  by (simp add: rederiveKey_def spread_params_def DEFAULT_KDF_PARAMS_def no_params_def)

theorem rederiveKey_same_inputs_same_key_witness:
  "''secret'' \<noteq> [] \<and> length (replicate 16 (1 :: byte)) = 16 \<and>
   sample_kdf ''secret'' (replicate 16 1) 65536 3 4 32 = Inr (replicate 32 (of_nat 65549)) \<and>
   rederiveKey sample_kdf ''secret'' (replicate 16 1) no_params =
     Inr \<lparr>key = replicate 32 (of_nat 65549), salt = replicate 16 1\<rparr>"
proof -
  have ne: "''secret'' \<noteq> []" by simp
  have len: "length (replicate 16 (1 :: byte)) = 16" by simp
  have lib: "sample_kdf ''secret'' (replicate 16 1) 65536 3 4 32 = Inr (replicate 32 (of_nat 65549))"
    by (simp add: sample_kdf_def)
  have klen: "length (replicate 32 (of_nat 65549 :: byte)) = 32" by simp
  note rederiveKey_same_inputs_same_key
    [where argon2id = sample_kdf and password = "''secret''" and ?salt0.0 = "replicate 16 1"
       and k = "replicate 32 (of_nat 65549)"
       and ?r1.0 = "rederiveKey sample_kdf ''secret'' (replicate 16 1) no_params"
       and ?r2.0 = "rederiveKey sample_kdf ''secret'' (replicate 16 1) no_params",
     OF ne len lib klen refl refl]
  then have "rederiveKey sample_kdf ''secret'' (replicate 16 1) no_params =
     Inr \<lparr>key = replicate 32 (of_nat 65549), salt = replicate 16 1\<rparr>"
    by (rule conjunct1)
  with ne len lib show ?thesis by (intro conjI)
qed

section \<open>Properties of tags and search\<close>


lemma split_comma_nonempty [simp]: "split_comma s \<noteq> []"
  by (induction s) auto

lemma like_percent_skip: "like_match ps s \<Longrightarrow> like_match (CHR ''%'' # ps) s"
  by (cases s) auto

lemma like_percent_any: "like_match (CHR ''%'' # ps) s \<Longrightarrow> like_match (CHR ''%'' # ps) (x # s)"
  by simp

lemma like_percent_prefix: "like_match ps s \<Longrightarrow> like_match (CHR ''%'' # ps) (pre @ s)"
  by (induction pre) (auto simp: like_percent_skip)

lemma like_percent_all: "like_match [CHR ''%''] s"
  by (induction s) auto

lemma like_literal: "like_match ps s \<Longrightarrow> like_match (t @ ps) (t @ s)"
  by (induction t) (auto simp: like_percent_skip)

lemma c_string_id: "CHR 0x00 \<notin> set s \<Longrightarrow> c_string s = s"
  by (auto simp: c_string_def)

lemma sql_like_no_nul:
  "CHR 0x00 \<notin> set pat \<Longrightarrow> CHR 0x00 \<notin> set s \<Longrightarrow> sql_like pat s = like_match pat s"
  by (simp add: sql_like_def c_string_id)

lemma join_append:
  "xs \<noteq> [] \<Longrightarrow> ys \<noteq> [] \<Longrightarrow> join sep (xs @ ys) = join sep xs @ sep @ join sep ys"
  by (induction sep xs rule: join.induct) (auto simp: neq_Nil_conv)

lemma join_split_comma: "join '','' (split_comma s) = s"
proof (induction s)
  case Nil
  then show ?case by simp
next
  case (Cons c cs)
  obtain t ts where ts: "split_comma cs = t # ts"
    by (cases "split_comma cs") auto
  with Cons show ?case
    by (cases ts) auto
qed

lemma token_positions:
  assumes "t \<in> set (split_comma s)"
  shows "s = t \<or> (\<exists>rest. s = t @ '','' @ rest) \<or> (\<exists>pre. s = pre @ '','' @ t) \<or>
         (\<exists>pre rest. s = pre @ '','' @ t @ '','' @ rest)"
proof -
  from assms obtain xs ys where sp: "split_comma s = xs @ t # ys"
    by (auto simp: in_set_conv_decomp)
  have s: "s = join '','' (xs @ t # ys)"
    using join_split_comma [of s] sp by simp
  show ?thesis
  proof (cases "xs = []")
    case True
    show ?thesis
    proof (cases "ys = []")
      case True
      with \<open>xs = []\<close> s show ?thesis by simp
    next
      case False
      with \<open>xs = []\<close> s have "s = t @ '','' @ join '','' ys"
        using join_append [of "[t]" ys "'',''"] by simp
      then show ?thesis by blast
    qed
  next
    case False
    show ?thesis
    proof (cases "ys = []")
      case True
      with False s have "s = join '','' xs @ '','' @ t"
        using join_append [of xs "[t]" "'',''"] by simp
      then show ?thesis by blast
    next
      case ys: False
      have "join '','' (t # ys) = t @ '','' @ join '','' ys"
        using ys join_append [of "[t]" ys "'',''"] by simp
      with False s have "s = join '','' xs @ '','' @ t @ '','' @ join '','' ys"
        using join_append [of xs "t # ys" "'',''"] by simp
      then show ?thesis by blast
    qed
  qed
qed

lemma tag_condition_complete:
  assumes "tags r = Some s" and "trim tag \<in> set (split_comma s)" and "CHR 0x00 \<notin> set s"
  shows "tag_condition tag r"
proof -
  let ?t = "trim tag"
  from token_positions [OF assms(2)]
  consider "s = ?t" | rest where "s = ?t @ '','' @ rest" | pre where "s = pre @ '','' @ ?t"
    | pre rest where "s = pre @ '','' @ ?t @ '','' @ rest"
    by blast
  then show ?thesis
  proof cases
    case 1
    with assms(1) show ?thesis by (simp add: tag_condition_def)
  next
    case 2
    have "like_match ((?t @ '','') @ ''%'') ((?t @ '','') @ rest)"
      by (rule like_literal) (rule like_percent_all)
    moreover from 2 assms(3) have "CHR 0x00 \<notin> set ?t" and "CHR 0x00 \<notin> set rest"
      by simp_all
    ultimately have "sql_like (?t @ '',%'') (?t @ '','' @ rest)"
      by (simp add: sql_like_no_nul)
    with 2 assms(1) show ?thesis by (simp add: tag_condition_def col_like_def)
  next
    case 3
    have "like_match ('','' @ ?t) ('','' @ ?t)"
      using like_literal [of "[]" "[]" "'','' @ ?t"] by simp
    then have "like_match (CHR ''%'' # '','' @ ?t) (pre @ '','' @ ?t)"
      by (rule like_percent_prefix)
    moreover from 3 assms(3) have "CHR 0x00 \<notin> set ?t" and "CHR 0x00 \<notin> set pre"
      by simp_all
    ultimately have "sql_like (''%,'' @ ?t) (pre @ '','' @ ?t)"
      by (simp add: sql_like_no_nul)
    with 3 assms(1) show ?thesis by (simp add: tag_condition_def col_like_def)
  next
    case 4
    have "like_match (('','' @ ?t @ '','') @ ''%'') (('','' @ ?t @ '','') @ rest)"
      by (rule like_literal) (rule like_percent_all)
    then have "like_match (CHR ''%'' # (('','' @ ?t @ '','') @ ''%'')) (pre @ (('','' @ ?t @ '','') @ rest))"
      by (rule like_percent_prefix)
    moreover from 4 assms(3) have "CHR 0x00 \<notin> set ?t" and "CHR 0x00 \<notin> set pre"
      and "CHR 0x00 \<notin> set rest"
      by simp_all
    ultimately have "sql_like (''%,'' @ ?t @ '',%'') (pre @ '','' @ ?t @ '','' @ rest)"
      by (simp add: sql_like_no_nul)
    with 4 assms(1) show ?thesis by (simp add: tag_condition_def col_like_def)
  qed
qed

section \<open>Properties of the tag mutations\<close>

lemma search_tags_only:
  "search db (tags_only tgs) =
     order_by_timestamp_desc (filter (\<lambda>r. \<forall>tag\<in>set tgs. tag_condition tag r) db)"
proof -
  have "search_conditions (tags_only tgs) = (\<lambda>r. \<forall>tag\<in>set tgs. tag_condition tag r)"
    by (rule ext) (simp add: tags_only_def search_conditions_def truthy_def)
  then show ?thesis
    by (simp add: search_def paginate_def) (simp add: tags_only_def)
qed

lemma changes_update [simp]: "changes (update_tags_where db i tgs now) j = changes db j"
  by (induction db) (auto simp: changes_def update_tags_where_def)

lemma changes_pos_iff: "0 < changes db i \<longleftrightarrow> i \<in> id_ev ` set db"
  by (induction db) (auto simp: changes_def)

lemma rename_loop_success:
  assumes "\<forall>ev\<in>set evs. truthy (tags ev) \<longrightarrow> faulty (id_ev ev) = None"
  shows "rename_loop faulty clock old new evs n db =
     (Inr (n + length (filter (\<lambda>ev. truthy (tags ev) \<and> 0 < changes db (id_ev ev)) evs)),
      foldl (\<lambda>d ev. update_tags_where d (id_ev ev) (renamed_tags old new ev) (clock (id_ev ev))) db
        (filter (\<lambda>ev. truthy (tags ev)) evs))"
  using assms
  by (induction evs arbitrary: n db) (auto simp: updateTags_def renamed_tags_def Let_def)

lemma rename_loop_failure:
  assumes "\<exists>ev\<in>set evs. truthy (tags ev) \<and> faulty (id_ev ev) \<noteq> None"
  shows "\<exists>e db'. rename_loop faulty clock old new evs n db = (Inl e, db')"
  using assms
proof (induction evs arbitrary: n db)
  case Nil
  then show ?case by simp
next
  case (Cons ev evs)
  show ?case
  proof (cases "truthy (tags ev) \<and> faulty (id_ev ev) \<noteq> None")
    case True
    then show ?thesis by (auto simp: updateTags_def Let_def)
  next
    case False
    with Cons.prems have "\<exists>ev\<in>set evs. truthy (tags ev) \<and> faulty (id_ev ev) \<noteq> None"
      by auto
    from Cons.IH [OF this] show ?thesis
      by (auto simp: updateTags_def Let_def split: option.splits)
  qed
qed

lemma primary_key_eq:
  assumes "primary_key db" and "r \<in> set db" and "t \<in> set db" and "id_ev r = id_ev t"
  shows "r = t"
  using assms unfolding primary_key_def
  by (metis distinct_map inj_on_def)

lemma fold_updates_rewrite:
  assumes "primary_key db" and "distinct (map id_ev ts)" and "set ts \<subseteq> set db"
  shows "foldl (\<lambda>d ev. update_tags_where d (id_ev ev) (g ev) (clock (id_ev ev))) db ts =
           rewrite_rows g clock ts db"
  using assms(2,3)
proof (induction ts rule: rev_induct)
  case Nil
  then show ?case by (simp add: rewrite_rows_def)
next
  case (snoc t ts)
  then have IH: "foldl (\<lambda>d ev. update_tags_where d (id_ev ev) (g ev) (clock (id_ev ev))) db ts =
           rewrite_rows g clock ts db"
    by simp
  from snoc.prems have t: "t \<in> set db" "t \<notin> set ts" "id_ev t \<notin> id_ev ` set ts"
    by auto
  have "update_tags_where (rewrite_rows g clock ts db) (id_ev t) (g t) (clock (id_ev t)) =
      rewrite_rows g clock (ts @ [t]) db"
    unfolding update_tags_where_def rewrite_rows_def map_map
  proof (rule map_cong [OF refl])
    fix r assume r: "r \<in> set db"
    show "((\<lambda>r. if id_ev r = id_ev t then r\<lparr>tags := g t, updatedAt := clock (id_ev t)\<rparr> else r) \<circ>
           (\<lambda>r. if r \<in> set ts then r\<lparr>tags := g r, updatedAt := clock (id_ev r)\<rparr> else r)) r =
          (if r \<in> set (ts @ [t]) then r\<lparr>tags := g r, updatedAt := clock (id_ev r)\<rparr> else r)"
    proof (cases "id_ev r = id_ev t")
      case True
      with primary_key_eq [OF assms(1) r t(1)] have "r = t" by simp
      with t show ?thesis by simp
    next
      case False
      then have "r \<noteq> t" by auto
      with False show ?thesis by simp
    qed
  qed
  with IH show ?case by simp
qed

lemma tag_targets_props:
  assumes "primary_key db"
  shows "distinct (map id_ev (tag_targets db old))" and "set (tag_targets db old) \<subseteq> set db"
proof -
  have "distinct (map id_ev (filter P db))" for P
    using assms unfolding primary_key_def by (simp add: distinct_map_filter)
  then have "distinct (map id_ev (sort_key timestamp (filter P db)))" for P
    by (metis distinct_map distinct_sort set_sort inj_on_def)
  then show "distinct (map id_ev (tag_targets db old))"
    unfolding tag_targets_def search_tags_only order_by_timestamp_desc_def
    by (simp add: distinct_map_filter rev_map [symmetric] del: rev_map)
  show "set (tag_targets db old) \<subseteq> set db"
    by (auto simp: tag_targets_def search_tags_only)
qed

lemma renameTag_failure:
  assumes "\<exists>r\<in>set (tag_targets db old). faulty (id_ev r) \<noteq> None"
  shows "\<exists>e. renameTag faulty clock db old new = (Inl e, db)"
proof -
  from assms have "\<exists>ev\<in>set (search db (tags_only [old])). truthy (tags ev) \<and> faulty (id_ev ev) \<noteq> None"
    by (auto simp: tag_targets_def)
  from rename_loop_failure [OF this, of clock old new 0 db]
  obtain e db' where "rename_loop faulty clock old new (search db (tags_only [old])) 0 db = (Inl e, db')"
    by blast
  then show ?thesis
    by (cases e) (simp add: renameTag_def transaction_def wrap_error_def)
qed

lemma renameTag_success:
  assumes "primary_key db" and "\<forall>r\<in>set (tag_targets db old). faulty (id_ev r) = None"
  shows "renameTag faulty clock db old new =
           (Inr (length (tag_targets db old)),
            rewrite_rows (renamed_tags old new) clock (tag_targets db old) db)"
proof -
  let ?evs = "search db (tags_only [old])"
  from assms(2) have ok: "\<forall>ev\<in>set ?evs. truthy (tags ev) \<longrightarrow> faulty (id_ev ev) = None"
    by (simp add: tag_targets_def)
  have sub: "set ?evs \<subseteq> set db"
    by (auto simp: search_tags_only)
  then have "filter (\<lambda>ev. truthy (tags ev) \<and> 0 < changes db (id_ev ev)) ?evs = tag_targets db old"
    unfolding tag_targets_def by (intro filter_cong refl) (auto simp: changes_pos_iff)
  with rename_loop_success [OF ok, of clock old new 0 db]
  have "rename_loop faulty clock old new ?evs 0 db =
      (Inr (length (tag_targets db old)),
       foldl (\<lambda>d ev. update_tags_where d (id_ev ev) (renamed_tags old new ev) (clock (id_ev ev))) db
         (tag_targets db old))"
    by (simp add: tag_targets_def)
  also have "foldl (\<lambda>d ev. update_tags_where d (id_ev ev) (renamed_tags old new ev) (clock (id_ev ev))) db
         (tag_targets db old) = rewrite_rows (renamed_tags old new) clock (tag_targets db old) db"
    using assms(1) tag_targets_props [OF assms(1)] by (rule fold_updates_rewrite)
  finally show ?thesis
    by (simp add: renameTag_def transaction_def wrap_error_def)
qed

lemma tag_targets_complete:
  assumes "r \<in> set db" and "tags r = Some s" and "s \<noteq> []" and "CHR 0x00 \<notin> set s"
    and "old \<in> set (split_comma s)" and "trim old = old"
  shows "r \<in> set (tag_targets db old)"
proof -
  from assms(2,3) have tr: "truthy (tags r)"
    by (simp add: truthy_def)
  from assms(5,6) have "trim old \<in> set (split_comma s)"
    by simp
  with assms(2) have "tag_condition old r"
    using assms(4) by (rule tag_condition_complete)
  with tr assms(1) show ?thesis
    by (simp add: tag_targets_def search_tags_only)
qed

text \<open>
  The rollback of \<open>renameTag\<close>. On a table with its primary key it ends in one of two
  ways: either it raises and the table is the one it started from, or it returns the
  number of its targets and the table in which every target has \<open>oldTag\<close> replaced by
  \<open>newTag\<close> among its trimmed tokens, all other rows being as before. It raises exactly
  when the write of some target fails, however many targets were written before that one.
\<close>

lemma renameTag_rollback:
  assumes "primary_key db"
  shows "((\<exists>e. renameTag faulty clock db old new = (Inl e, db)) \<or>
          renameTag faulty clock db old new =
            (Inr (length (tag_targets db old)),
             rewrite_rows (renamed_tags old new) clock (tag_targets db old) db)) \<and>
         ((\<exists>e. renameTag faulty clock db old new = (Inl e, db)) \<longleftrightarrow>
            (\<exists>r\<in>set (tag_targets db old). faulty (id_ev r) \<noteq> None))"
proof (intro conjI)
  show "(\<exists>e. renameTag faulty clock db old new = (Inl e, db)) \<or>
          renameTag faulty clock db old new =
            (Inr (length (tag_targets db old)),
             rewrite_rows (renamed_tags old new) clock (tag_targets db old) db)"
    using renameTag_failure [of db old faulty clock new] renameTag_success [OF assms, of old faulty clock new]
    by blast
  show "(\<exists>e. renameTag faulty clock db old new = (Inl e, db)) \<longleftrightarrow>
            (\<exists>r\<in>set (tag_targets db old). faulty (id_ev r) \<noteq> None)"
  proof
    assume "\<exists>e. renameTag faulty clock db old new = (Inl e, db)"
    then obtain e where e: "renameTag faulty clock db old new = (Inl e, db)" ..
    show "\<exists>r\<in>set (tag_targets db old). faulty (id_ev r) \<noteq> None"
    proof (rule ccontr)
      assume "\<not> ?thesis"
      then have "\<forall>r\<in>set (tag_targets db old). faulty (id_ev r) = None" by simp
      from renameTag_success [OF assms this, of clock new] e show False by simp
    qed
  next
    assume "\<exists>r\<in>set (tag_targets db old). faulty (id_ev r) \<noteq> None"
    then show "\<exists>e. renameTag faulty clock db old new = (Inl e, db)"
      by (rule renameTag_failure)
  qed
qed

text \<open>
  A run that fails partway. Both rows of the table carry \<open>api\<close>. The loop has already
  renamed the tag in row \<open>b\<close> when the write of row \<open>a\<close> fails; \<open>renameTag\<close> raises and
  hands back the table as it was.
\<close>

lemma renameTag_rollback_run:
  "rename_loop (\<lambda>i. if i = ''a'' then Some ''disk full'' else None) (\<lambda>i. ''2026-03-01T00:00:00.000Z'')
       ''api'' ''rest'' (search api_store (tags_only [''api''])) 0 api_store =
     (Inl (Error ''Failed to update tags: disk full''),
      [sample_row ''a'' ''2026-01-01T00:00:00.000Z'' (Some ''api,web''),
       (sample_row ''b'' ''2026-01-02T00:00:00.000Z'' (Some ''rest''))\<lparr>updatedAt := ''2026-03-01T00:00:00.000Z''\<rparr>]) \<and>
   renameTag (\<lambda>i. if i = ''a'' then Some ''disk full'' else None) (\<lambda>i. ''2026-03-01T00:00:00.000Z'')
       api_store ''api'' ''rest'' =
     (Inl (Error ''Failed to rename tag: Failed to update tags: disk full''), api_store)"
  by code_simp

text \<open>
  Which records the rename reaches. A record is a target when its stored list is not
  empty, has no U+0000 in it and holds \<open>oldTag\<close>, itself trimmed, as one of its pieces
  exactly as stored (lemma \<open>tag_targets_complete\<close>). A piece stored with white space
  around it is not found by the search, although the loop, like every other reader of a
  tag list in the class, trims the pieces before it compares them. Such a list is
  written by \<open>renameTag\<close> itself when \<open>newTag\<close> holds a separator.
\<close>

lemma renameTag_writes_padded_list:
  "renameTag (\<lambda>i. None) (\<lambda>i. ''2026-02-01T00:00:00.000Z'')
     [sample_row ''a'' ''2026-01-01T00:00:00.000Z'' (Some ''api''),
      sample_row ''b'' ''2026-01-02T00:00:00.000Z'' (Some ''draft'')] ''draft'' ''web, api'' =
     (Inr 1,
      [sample_row ''a'' ''2026-01-01T00:00:00.000Z'' (Some ''api''),
       (sample_row ''b'' ''2026-01-02T00:00:00.000Z'' (Some ''web, api''))\<lparr>updatedAt := ''2026-02-01T00:00:00.000Z''\<rparr>])"
  by code_simp

text \<open>
  C4 at a failing input. The table has two records, \<open>a\<close> with the tag list \<open>api\<close> and
  \<open>b\<close> with the tag list \<open>web, api\<close>, whose pieces, trimmed as the code trims them,
  are \<open>web\<close> and \<open>api\<close>. No write fails. \<open>renameTag\<close> of \<open>api\<close> to \<open>v2\<close> returns 1:
  record \<open>a\<close> now carries \<open>v2\<close>, and record \<open>b\<close> still carries \<open>api\<close>.
\<close>

theorem renameTag_misses_padded_tag:
  "renameTag (\<lambda>i. None) (\<lambda>i. ''2026-03-01T00:00:00.000Z'')
     [sample_row ''a'' ''2026-01-01T00:00:00.000Z'' (Some ''api''),
      sample_row ''b'' ''2026-01-02T00:00:00.000Z'' (Some ''web, api'')] ''api'' ''v2'' =
     (Inr 1,
      [(sample_row ''a'' ''2026-01-01T00:00:00.000Z'' (Some ''v2''))\<lparr>updatedAt := ''2026-03-01T00:00:00.000Z''\<rparr>,
       sample_row ''b'' ''2026-01-02T00:00:00.000Z'' (Some ''web, api'')]) \<and>
   map trim (tag_tokens (sample_row ''b'' ''2026-01-02T00:00:00.000Z'' (Some ''web, api''))) =
     [''web'', ''api'']"
  by code_simp

text \<open>
  C5 at a failing input. The table has one record, with the tags \<open>api-v2\<close> and \<open>web\<close>;
  the filter asks for the tag \<open>api_v2\<close>. The underscore is a wildcard of \<open>LIKE\<close>, so
  the record is returned although \<open>api_v2\<close> is not among its tokens.
\<close>

theorem search_tag_filter_wildcard_match:
  "map id_ev (search [sample_row ''a'' ''2026-01-01T00:00:00.000Z'' (Some ''api-v2,web'')]
                (tags_only [''api_v2''])) = [''a''] \<and>
   tag_tokens (sample_row ''a'' ''2026-01-01T00:00:00.000Z'' (Some ''api-v2,web'')) = [''api-v2'', ''web''] \<and>
   ''api_v2'' \<notin> set (tag_tokens (sample_row ''a'' ''2026-01-01T00:00:00.000Z'' (Some ''api-v2,web'')))"
  by code_simp

text \<open>
  What does hold of the tag filter: a record whose stored string has no U+0000 and has
  every trimmed filter tag among its tokens is matched, and a record whose only tag is
  \<open>apigee\<close> is never returned for the filter \<open>api\<close>.
\<close>

lemma search_tags_complete:
  assumes "r \<in> set db" and "tags r = Some s" and "CHR 0x00 \<notin> set s"
    and "\<forall>tag\<in>set tgs. trim tag \<in> set (split_comma s)"
  shows "r \<in> set (search db (tags_only tgs))"
  using assms by (auto simp: search_tags_only intro: tag_condition_complete)

lemma search_api_not_apigee:
  assumes "tags r = Some ''apigee''"
  shows "r \<notin> set (search db (tags_only [''api'']))"
proof -
  have "trim ''api'' = ''api''"
    by (simp add: trim_def is_space_def)
  then have "\<not> tag_condition ''api'' r"
    using assms by (simp add: tag_condition_def col_like_def sql_like_def c_string_def ascii_lower_def)
  then show ?thesis
    by (simp add: search_tags_only)
qed

text \<open>
  A stored list is compared up to its first U+0000: the filter \<open>api\<close> finds the list
  \<open>x,api\<close> U+0000 \<open>junk\<close>, whose last piece is not \<open>api\<close>, and does not find the list
  \<open>x\<close> U+0000 \<open>,api\<close>, whose last piece is.
\<close>

lemma search_reads_to_first_nul:
  "map id_ev (search [sample_row ''a'' ''2026-01-01T00:00:00.000Z'' (Some (''x,api'' @ [CHR 0x00] @ ''junk''))]
                (tags_only [''api''])) = [''a''] \<and>
   map id_ev (search [sample_row ''a'' ''2026-01-01T00:00:00.000Z'' (Some (''x'' @ [CHR 0x00] @ '',api''))]
                (tags_only [''api''])) = []"
  by code_simp

lemma dedup_foldl:
  "distinct acc \<Longrightarrow>
     distinct (foldl (\<lambda>acc x. if x \<in> set acc then acc else acc @ [x]) acc xs) \<and>
     set (foldl (\<lambda>acc x. if x \<in> set acc then acc else acc @ [x]) acc xs) = set acc \<union> set xs"
  by (induction xs arbitrary: acc) auto

lemma distinct_dedup [simp]: "distinct (dedup xs)"
  using dedup_foldl [of "[]" xs] by (simp add: dedup_def)

lemma set_dedup [simp]: "set (dedup xs) = set xs"
  using dedup_foldl [of "[]" xs] by (simp add: dedup_def)







lemma update_tags_where_mem:
  assumes "r \<in> set (update_tags_where db i tgs now)"
  obtains r0 where "r0 \<in> set db" and "id_ev r0 = i" and "r = r0\<lparr>tags := tgs, updatedAt := now\<rparr>"
    | "r \<in> set db" and "id_ev r \<noteq> i"
proof -
  from assms obtain r0 where r0: "r0 \<in> set db"
    and r: "r = (if id_ev r0 = i then r0\<lparr>tags := tgs, updatedAt := now\<rparr> else r0)"
    unfolding update_tags_where_def set_map by blast
  show thesis
  proof (cases "id_ev r0 = i")
    case True
    with r0 r that(1) show ?thesis by simp
  next
    case False
    with r0 r that(2) show ?thesis by simp
  qed
qed


lemma update_tags_where_miss:
  assumes "r \<in> set (update_tags_where db i tgs now)" and "id_ev r \<noteq> i"
  shows "r \<in> set db"
  using assms(1)
proof (cases rule: update_tags_where_mem)
  case (1 r0)
  with assms(2) show ?thesis by simp
next
  case 2
  then show ?thesis by simp
qed

















section \<open>Properties of the text encoding\<close>

text \<open>Digits of a code point in base 64, as the UTF-8 encoder takes them.\<close>

lemma mod_add_mult: "(a::nat) < n \<Longrightarrow> (k * n + a) mod n = a"
  by simp

lemma lead2: "(a::nat) < 0x20 \<Longrightarrow> (0xC0 + a) mod 0x20 = a"
  using mod_add_mult [of a "0x20" 6] by simp

lemma lead3: "(a::nat) < 0x10 \<Longrightarrow> (0xE0 + a) mod 0x10 = a"
  using mod_add_mult [of a "0x10" 14] by simp

lemma lead4: "(a::nat) < 8 \<Longrightarrow> (0xF0 + a) mod 8 = a"
  using mod_add_mult [of a 8 30] by simp

lemma cont: "(b::nat) < 0x40 \<Longrightarrow> (0x80 + b) mod 0x40 = b"
  using mod_add_mult [of b "0x40" 2] by simp

lemma digits2: "(cp::nat) div 0x40 * 0x40 + cp mod 0x40 = cp"
  by simp

lemma digits3: "(cp::nat) div 0x1000 * 0x1000 + cp div 0x40 mod 0x40 * 0x40 + cp mod 0x40 = cp"
proof -
  define q where "q = cp div 0x40"
  have "cp div 0x1000 = q div 0x40"
    by (simp add: q_def div_mult2_eq [symmetric])
  moreover have "q * 0x40 + cp mod 0x40 = cp" by (simp add: q_def)
  moreover have "q div 0x40 * 0x40 + q mod 0x40 = q" by simp
  ultimately show ?thesis
    unfolding q_def [symmetric] by linarith
qed

lemma digits4:
  "(cp::nat) div 0x40000 * 0x40000 + cp div 0x1000 mod 0x40 * 0x1000 + cp div 0x40 mod 0x40 * 0x40 +
     cp mod 0x40 = cp"
proof -
  define q where "q = cp div 0x40"
  define p where "p = q div 0x40"
  have p: "cp div 0x1000 = p"
    by (simp add: p_def q_def div_mult2_eq [symmetric])
  have a: "cp div 0x40000 = p div 0x40"
    by (simp add: p_def q_def div_mult2_eq [symmetric])
  have "q * 0x40 + cp mod 0x40 = cp" by (simp add: q_def)
  moreover have "p * 0x40 + q mod 0x40 = q" by (simp add: p_def)
  moreover have "p div 0x40 * 0x40 + p mod 0x40 = p" by simp
  ultimately show ?thesis
    unfolding p a q_def [symmetric] by linarith
qed

text \<open>The decoder reads back what the encoder wrote for one scalar value.\<close>

lemma decode_1:
  "cp < 0x80 \<Longrightarrow> utf8_decoder 0 0 0x80 0xBF (cp # rest) = cp # utf8_decoder 0 0 0x80 0xBF rest"
  by simp

lemma decode_2:
  assumes "2 \<le> a" and "a < 0x20" and "b < 0x40"
  shows "utf8_decoder 0 0 0x80 0xBF ((0xC0 + a) # (0x80 + b) # rest) =
           (a * 0x40 + b) # utf8_decoder 0 0 0x80 0xBF rest"
  using assms by (simp add: lead2 cont)

lemma decode_3:
  assumes "a < 0x10" and "b < 0x40" and "c < 0x40"
    and "a = 0 \<longrightarrow> 0x20 \<le> b" and "a = 0xD \<longrightarrow> b < 0x20"
  shows "utf8_decoder 0 0 0x80 0xBF ((0xE0 + a) # (0x80 + b) # (0x80 + c) # rest) =
           (a * 0x1000 + b * 0x40 + c) # utf8_decoder 0 0 0x80 0xBF rest"
  using assms by (auto simp add: lead3 cont)

lemma decode_4:
  assumes "a \<le> 4" and "b < 0x40" and "c < 0x40" and "d < 0x40"
    and "a = 0 \<longrightarrow> 0x10 \<le> b" and "a = 4 \<longrightarrow> b < 0x10"
  shows "utf8_decoder 0 0 0x80 0xBF ((0xF0 + a) # (0x80 + b) # (0x80 + c) # (0x80 + d) # rest) =
           (a * 0x40000 + b * 0x1000 + c * 0x40 + d) # utf8_decoder 0 0 0x80 0xBF rest"
  using assms by (auto simp add: lead4 cont)


lemma utf8_bytes_2:
  assumes "0x80 \<le> cp" and "cp < 0x800"
  shows "utf8_decoder 0 0 0x80 0xBF (utf8_bytes cp @ rest) = cp # utf8_decoder 0 0 0x80 0xBF rest"
proof -
  have a: "2 \<le> cp div 0x40" "cp div 0x40 < 0x20"
    using assms by arith+
  have b: "cp mod 0x40 < 0x40" by simp
  from decode_2 [OF a b, of rest] assms show ?thesis
    by (simp add: utf8_bytes_def)
qed

lemma utf8_bytes_3:
  assumes "0x800 \<le> cp" and "cp < 0x10000" and "\<not> (0xD800 \<le> cp \<and> cp \<le> 0xDFFF)"
  shows "utf8_decoder 0 0 0x80 0xBF (utf8_bytes cp @ rest) = cp # utf8_decoder 0 0 0x80 0xBF rest"
proof -
  define a where "a = cp div 0x1000"
  define b where "b = cp div 0x40 mod 0x40"
  define c where "c = cp mod 0x40"
  have cp: "a * 0x1000 + b * 0x40 + c = cp"
    unfolding a_def b_def c_def by (rule digits3)
  have b: "b < 0x40" and c: "c < 0x40"
    by (simp_all add: b_def c_def)
  from assms cp b c have a: "a < 0x10" by linarith
  from assms cp b c have lo: "a = 0 \<longrightarrow> 0x20 \<le> b" by auto
  from assms cp b c have hi: "a = 0xD \<longrightarrow> b < 0x20" by auto
  from decode_3 [OF a b c lo hi, of rest] cp assms show ?thesis
    by (simp add: utf8_bytes_def a_def b_def c_def)
qed

lemma utf8_bytes_4:
  assumes "0x10000 \<le> cp" and "cp < 0x110000"
  shows "utf8_decoder 0 0 0x80 0xBF (utf8_bytes cp @ rest) = cp # utf8_decoder 0 0 0x80 0xBF rest"
proof -
  define a where "a = cp div 0x40000"
  define b where "b = cp div 0x1000 mod 0x40"
  define c where "c = cp div 0x40 mod 0x40"
  define d where "d = cp mod 0x40"
  have cp: "a * 0x40000 + b * 0x1000 + c * 0x40 + d = cp"
    unfolding a_def b_def c_def d_def by (rule digits4)
  have b: "b < 0x40" and c: "c < 0x40" and d: "d < 0x40"
    by (simp_all add: b_def c_def d_def)
  from assms cp b c d have a: "a \<le> 4" by linarith
  from assms cp b c d have lo: "a = 0 \<longrightarrow> 0x10 \<le> b" by auto
  from assms cp b c d have hi: "a = 4 \<longrightarrow> b < 0x10" by auto
  from decode_4 [OF a b c d lo hi, of rest] cp assms show ?thesis
    by (simp add: utf8_bytes_def a_def b_def c_def d_def)
qed

lemma decode_utf8_bytes:
  assumes "scalar cp"
  shows "utf8_decoder 0 0 0x80 0xBF (utf8_bytes cp @ rest) = cp # utf8_decoder 0 0 0x80 0xBF rest"
proof -
  from assms have range: "cp < 0x110000" and ns: "\<not> (0xD800 \<le> cp \<and> cp \<le> 0xDFFF)"
    by (simp_all add: scalar_def)
  consider "cp < 0x80" | "0x80 \<le> cp \<and> cp < 0x800" | "0x800 \<le> cp \<and> cp < 0x10000"
    | "0x10000 \<le> cp \<and> cp < 0x110000"
    using range by linarith
  then show ?thesis
  proof cases
    case 1
    then show ?thesis by (simp add: utf8_bytes_def)
  next
    case 2
    then show ?thesis by (simp add: utf8_bytes_2)
  next
    case 3
    with ns show ?thesis by (simp add: utf8_bytes_3)
  next
    case 4
    then show ?thesis by (simp add: utf8_bytes_4)
  qed
qed

lemma decode_concat:
  assumes "\<forall>cp\<in>set cps. scalar cp"
  shows "utf8_decoder 0 0 0x80 0xBF (concat (map utf8_bytes cps)) = cps"
  using assms by (induction cps) (simp_all add: decode_utf8_bytes)

lemma div_mod_pair:
  "(y::nat) < n \<Longrightarrow> (x * n + y) div n = x" "(y::nat) < n \<Longrightarrow> (x * n + y) mod n = y"
  by simp_all

lemma code_units_pair:
  assumes "is_lead c" and "is_trail d"
  shows "code_units (0x10000 + (c - 0xD800) * 0x400 + (d - 0xDC00)) = [c, d]"
    and "scalar (0x10000 + (c - 0xD800) * 0x400 + (d - 0xDC00))"
proof -
  define x where "x = c - 0xD800"
  define y where "y = d - 0xDC00"
  from assms have x: "x < 0x400" "0xD800 + x = c" and y: "y < 0x400" "0xDC00 + y = d"
    by (auto simp add: x_def y_def is_lead_def is_trail_def)
  have "code_units (0x10000 + x * 0x400 + y) = [0xD800 + x, 0xDC00 + y]"
    using div_mod_pair [of y "0x400" x] y(1) by (simp add: code_units_def)
  with x y show "code_units (0x10000 + (c - 0xD800) * 0x400 + (d - 0xDC00)) = [c, d]"
    by (simp add: x_def [symmetric] y_def [symmetric])
  from x(1) y(1) have "scalar (0x10000 + x * 0x400 + y)"
    by (simp add: scalar_def)
  then show "scalar (0x10000 + (c - 0xD800) * 0x400 + (d - 0xDC00))"
    by (simp add: x_def y_def)
qed

lemma code_units_bmp: "u < 0x10000 \<Longrightarrow> code_units u = [u]"
  by (simp add: code_units_def)

lemma scalar_bmp: "u < 0x10000 \<Longrightarrow> \<not> is_lead u \<Longrightarrow> \<not> is_trail u \<Longrightarrow> scalar u"
  by (auto simp: scalar_def is_lead_def is_trail_def)

lemma to_scalar_values_well_formed:
  assumes "well_formed us" and "\<forall>u\<in>set us. u < 0x10000"
  shows "(\<forall>cp\<in>set (to_scalar_values us). scalar cp) \<and>
         concat (map code_units (to_scalar_values us)) = us"
  using assms
proof (induction us rule: to_scalar_values.induct)
  case 1
  then show ?case by simp
next
  case (2 c)
  then show ?case by (simp add: code_units_bmp scalar_bmp)
next
  case (3 c d ds)
  show ?case
  proof (cases "is_lead c \<and> is_trail d")
    case True
    with 3 have "(\<forall>cp\<in>set (to_scalar_values ds). scalar cp) \<and>
         concat (map code_units (to_scalar_values ds)) = ds"
      by simp
    with True show ?thesis
      by (simp add: code_units_pair)
  next
    case False
    with 3 have "(\<forall>cp\<in>set (to_scalar_values (d # ds)). scalar cp) \<and>
         concat (map code_units (to_scalar_values (d # ds))) = d # ds"
      and "\<not> is_lead c" "\<not> is_trail c" "c < 0x10000"
      by simp_all
    with False show ?thesis
      by (simp add: code_units_bmp scalar_bmp)
  qed
qed

lemma to_scalar_values_first:
  assumes "well_formed us" and "take 1 us \<noteq> [0xFEFF]"
  shows "take 1 (to_scalar_values us) \<noteq> [0xFEFF]"
  using assms
proof (cases us rule: to_scalar_values.cases)
  case 1
  then show ?thesis by simp
next
  case (2 c)
  with assms show ?thesis by simp
next
  case (3 c d ds)
  with assms show ?thesis
    by (auto simp: is_lead_def is_trail_def)
qed

lemma strip_bom_other: "b \<noteq> 0xEF \<Longrightarrow> strip_bom (b # bs) = b # bs"
  by (cases "b # bs" rule: strip_bom.cases) simp_all

lemma strip_bom_utf8_bytes:
  assumes "scalar cp" and "cp \<noteq> 0xFEFF"
  shows "strip_bom (utf8_bytes cp @ rest) = utf8_bytes cp @ rest"
proof -
  from assms have range: "cp < 0x110000"
    by (simp add: scalar_def)
  consider "cp < 0x80" | "0x80 \<le> cp \<and> cp < 0x800" | "0x800 \<le> cp \<and> cp < 0x10000"
    | "0x10000 \<le> cp \<and> cp < 0x110000"
    using range by linarith
  then show ?thesis
  proof cases
    case 1
    then show ?thesis by (simp add: utf8_bytes_def strip_bom_other)
  next
    case 2
    then have "cp div 0x40 < 0x20" by arith
    then have "0xC0 + cp div 0x40 \<noteq> (0xEF :: nat)" by simp
    with 2 show ?thesis by (simp add: utf8_bytes_def strip_bom_other)
  next
    case 3
    have "\<not> (cp div 0x1000 = 0xF \<and> cp div 0x40 mod 0x40 = 0x3B \<and> cp mod 0x40 = 0x3F)"
    proof
      assume "cp div 0x1000 = 0xF \<and> cp div 0x40 mod 0x40 = 0x3B \<and> cp mod 0x40 = 0x3F"
      with digits3 [of cp] have "cp = 0xFEFF" by simp
      with assms(2) show False by simp
    qed
    with 3 show ?thesis by (auto simp: utf8_bytes_def)
  next
    case 4
    then show ?thesis by (simp add: utf8_bytes_def strip_bom_other)
  qed
qed

lemma strip_bom_concat:
  assumes "\<forall>cp\<in>set cps. scalar cp" and "take 1 cps \<noteq> [0xFEFF]"
  shows "strip_bom (concat (map utf8_bytes cps)) = concat (map utf8_bytes cps)"
proof (cases cps)
  case Nil
  then show ?thesis by simp
next
  case (Cons cp rest)
  with assms show ?thesis by (simp add: strip_bom_utf8_bytes)
qed

lemma utf8_bytes_are_bytes:
  assumes "scalar cp"
  shows "\<forall>b\<in>set (utf8_bytes cp). b < 256"
proof -
  from assms have range: "cp < 0x110000"
    by (simp add: scalar_def)
  have m: "cp mod 0x40 < 0x40" "cp div 0x40 mod 0x40 < 0x40" "cp div 0x1000 mod 0x40 < 0x40"
    by simp_all
  have "cp < 0x800 \<Longrightarrow> cp div 0x40 < 0x20" by arith
  moreover have "cp < 0x10000 \<Longrightarrow> cp div 0x1000 < 0x10" by arith
  moreover from range have "cp div 0x40000 < 5" by arith
  ultimately show ?thesis
    using m by (auto simp: utf8_bytes_def)
qed

section \<open>Properties of the cipher\<close>

lemma unat_of_nat_byte: "b < 256 \<Longrightarrow> unat (of_nat b :: byte) = b"
  by (simp add: unat_of_nat)

lemma map_unat_of_nat_bytes:
  assumes "\<forall>b\<in>set bs. b < 256"
  shows "map unat (map of_nat bs :: bytes) = bs"
  using assms by (induction bs) (simp_all add: unat_of_nat_byte)

lemma code_unit_range: "unat (u :: 16 word) < 0x10000"
  using unsigned_less [of u, where ?'a = nat] by simp

lemma text_roundtrip:
  assumes "well_formed (map unat s)" and "take 1 s \<noteq> [0xFEFF]"
  shows "TextDecoder_decode (TextEncoder_encode s) = s"
proof -
  define us where "us = map unat s"
  define cps where "cps = to_scalar_values us"
  have small: "\<forall>u\<in>set us. u < 0x10000"
    by (auto simp: us_def code_unit_range)
  have first: "take 1 us \<noteq> [0xFEFF]"
  proof (cases s)
    case Nil
    then show ?thesis by (simp add: us_def)
  next
    case (Cons u rest)
    with assms(2) have "u \<noteq> 0xFEFF" by simp
    then have "unat u \<noteq> 0xFEFF"
      by (metis of_nat_unat of_nat_numeral ucast_id)
    with Cons show ?thesis by (simp add: us_def)
  qed
  from assms(1) have wf: "well_formed us"
    by (simp add: us_def)
  from to_scalar_values_well_formed [OF wf small]
  have sc: "\<forall>cp\<in>set cps. scalar cp" and units: "concat (map code_units cps) = us"
    by (simp_all add: cps_def)
  have cfirst: "take 1 cps \<noteq> [0xFEFF]"
    unfolding cps_def using wf first by (rule to_scalar_values_first)
  have bytes: "\<forall>b\<in>set (concat (map utf8_bytes cps)). b < 256"
    using sc utf8_bytes_are_bytes by auto
  have "TextEncoder_encode s = map of_nat (concat (map utf8_bytes cps))"
    by (simp add: TextEncoder_encode_def cps_def us_def)
  then have "TextDecoder_decode (TextEncoder_encode s) =
      map of_nat (concat (map code_units (utf8_decoder 0 0 0x80 0xBF
        (strip_bom (concat (map utf8_bytes cps))))))"
    by (simp only: TextDecoder_decode_def map_unat_of_nat_bytes [OF bytes])
  also have "\<dots> = map of_nat us"
    by (simp only: strip_bom_concat [OF sc cfirst] decode_concat [OF sc] units)
  also have "\<dots> = s"
    by (simp add: us_def comp_def)
  finally show ?thesis .
qed

lemma encrypt_decrypt:
  assumes "aead_correct c" and "length K = 32" and "length rnd = 24"
  shows "encrypt c rnd P K = Inr \<lparr>ciphertext = seal c K rnd (TextEncoder_encode P), nonce_e = rnd\<rparr>"
    and "decrypt c (seal c K rnd (TextEncoder_encode P)) rnd K =
           Inr (TextDecoder_decode (TextEncoder_encode P))"
  using assms by (simp_all add: encrypt_def decrypt_def aead_correct_def Let_def)

lemma plain_aead_correct: "aead_correct plain_aead"
  unfolding aead_correct_def
proof (intro allI impI)
  fix k n p :: bytes
  assume k: "length k = 32" and n: "length n = 24"
  define t where "t = take 16 (k @ n)"
  have t: "length t = 16"
    using k by (simp add: t_def)
  have "seal plain_aead k n p = p @ t"
    by (simp add: plain_aead_def t_def)
  moreover have "unseal plain_aead k n (p @ t) = Some p"
    using t by (simp add: plain_aead_def del: take_append flip: t_def) simp
  ultimately show "unseal plain_aead k n (seal plain_aead k n p) = Some p"
    by simp
qed

text \<open>
  Where the round trip holds. Let the cipher keep the library's promise, the key have 32
  bytes and the drawn nonce 24. For a plaintext in which every surrogate is paired and
  which does not begin with U+FEFF, \<open>decrypt\<close> returns what \<open>encrypt\<close> was given.
\<close>

lemma encrypt_decrypt_well_formed:
  assumes "aead_correct c" and "length K = 32" and "length rnd = 24"
    and "well_formed (map unat P)" and "take 1 P \<noteq> [0xFEFF]"
  shows "\<exists>ct. encrypt c rnd P K = Inr \<lparr>ciphertext = ct, nonce_e = rnd\<rparr> \<and>
              decrypt c ct rnd K = Inr P"
  using encrypt_decrypt [OF assms(1-3), of P] text_roundtrip [OF assms(4,5)]
  by simp

text \<open>
  The two conversions at a string that begins with U+FEFF and at a surrogate without its
  partner. \<open>TextEncoder\<close> writes the mark as \<open>EF BB BF\<close> and \<open>TextDecoder\<close>, which is
  constructed without \<open>ignoreBOM\<close>, drops these bytes again; the lone surrogate is
  replaced by U+FFFD when the string is encoded, as the Encoding Standard has it.
\<close>

lemma text_roundtrip_bom: "TextDecoder_decode (TextEncoder_encode [0xFEFF, 0x61]) = [0x61]"
  by (simp add: TextEncoder_encode_def TextDecoder_decode_def is_lead_def is_trail_def
      utf8_bytes_def code_units_def)

lemma text_roundtrip_lone_surrogate: "TextDecoder_decode (TextEncoder_encode [0xD800]) = [0xFFFD]"
  by (simp add: TextEncoder_encode_def TextDecoder_decode_def is_lead_def is_trail_def
      utf8_bytes_def code_units_def)

lemma decrypt_encrypt_bom:
  assumes "aead_correct c" and "length K = 32" and "length rnd = 24"
  shows "decrypt c (seal c K rnd (TextEncoder_encode [0xFEFF, 0x61])) rnd K = Inr [0x61]"
  using encrypt_decrypt(2) [OF assms, of "[0xFEFF, 0x61]"] by (simp only: text_roundtrip_bom)

text \<open>
  The bytes of the two strings differ, and so do the bytes that are hashed: the capture
  handler hashes the content it was given, the verifier the content that \<open>decrypt\<close>
  returned.
\<close>

lemma utf8_of_marked_content:
  "TextEncoder_encode [0xFEFF, 0x61] = [0xEF, 0xBB, 0xBF, 0x61] \<and> TextEncoder_encode [0x61] = [0x61]"
  by (simp add: TextEncoder_encode_def is_lead_def is_trail_def utf8_bytes_def)

text \<open>
  What this does to a record. Let the record hold what the capture handler stores for
  the content U+FEFF \<open>a\<close>: the ciphertext and nonce of \<open>encrypt\<close>, and the digest of the
  content as it was given. The verifier, run with the right key on the untouched record,
  reports that decryption passed and that the content integrity check failed, if only the
  digests of the two byte strings differ.
\<close>

lemma verify_after_capture_with_mark:
  assumes "aead_correct c" and "length K = 32" and "length rnd = 24"
    and "findById db i = Some fp"
    and "encryptedContent fp = seal c K rnd (TextEncoder_encode [0xFEFF, 0x61])"
    and "nonce fp = rnd"
    and "contentHash fp = sha256 (TextEncoder_encode [0xFEFF, 0x61])"
    and "sha256 [0xEF, 0xBB, 0xBF, 0x61] \<noteq> sha256 [0x61]"
  shows "\<exists>res. createVerifyFootprintHandler c sha256 db (Inr K) now i = Inr res \<and>
           encryptionStatus_passed res \<and> \<not> contentIntegrity_passed res \<and> \<not> verified res"
proof -
  have dec: "decrypt c (encryptedContent fp) (nonce fp) K = Inr [0x61]"
    using decrypt_encrypt_bom [OF assms(1-3)] assms(5,6) by simp
  have enc: "TextEncoder_encode [0xFEFF, 0x61] = [0xEF, 0xBB, 0xBF, 0x61]"
      "TextEncoder_encode [0x61] = [0x61]"
    using utf8_of_marked_content by simp_all
  from assms(8) have "sha256 [0x61] \<noteq> sha256 [0xEF, 0xBB, 0xBF, 0x61]"
    by (rule not_sym)
  with assms(4,7) dec enc show ?thesis
    by (simp add: createVerifyFootprintHandler_def wrapToolHandler_def verify_footprint_body_def Let_def)
qed

text \<open>
  C1 at a failing input. The plaintext is U+FEFF followed by the letter \<open>a\<close>, a
  well-formed string; the key has 32 bytes, the drawn nonce 24, and the cipher keeps the
  library's promise. \<open>encrypt\<close> returns a ciphertext with that nonce, and \<open>decrypt\<close> of
  the two under the same key returns the letter \<open>a\<close> alone.
\<close>

theorem encrypt_decrypt_drops_leading_mark:
  assumes "aead_correct c" and "length K = 32" and "length rnd = 24"
  shows "\<exists>ct. encrypt c rnd [0xFEFF, 0x61] K = Inr \<lparr>ciphertext = ct, nonce_e = rnd\<rparr> \<and>
              decrypt c ct rnd K = Inr [0x61]"
  using encrypt_decrypt [OF assms, of "[0xFEFF, 0x61]"]
  by (simp only: text_roundtrip_bom) blast

theorem encrypt_decrypt_drops_leading_mark_witness:
  "aead_correct plain_aead \<and> length (replicate 32 (7 :: byte)) = 32 \<and>
   length (replicate 24 (0 :: byte)) = 24 \<and>
   (\<exists>ct. encrypt plain_aead (replicate 24 0) [0xFEFF, 0x61] (replicate 32 7) =
            Inr \<lparr>ciphertext = ct, nonce_e = replicate 24 0\<rparr> \<and>
         decrypt plain_aead ct (replicate 24 0) (replicate 32 7) = Inr [0x61])"
proof -
  have k: "length (replicate 32 (7 :: byte)) = 32" by simp
  have n: "length (replicate 24 (0 :: byte)) = 24" by simp
  note encrypt_decrypt_drops_leading_mark [OF plain_aead_correct k n]
  with plain_aead_correct k n show ?thesis
    by (intro conjI)
qed

end
